theory Spec2Isabelle
  imports Complex_Main
begin

chapter \<open>The wake and sleep controller of a speech recognition stream\<close>

text \<open>
  The class \<open>WakeSleepSTT\<close> sits between a continuous speech recognition stream and an
  application. It normalizes each recognized text, matches it against wake and sleep
  phrases, switches between listening and transcribing, and restarts the stream after a
  failure, a bounded number of times and with a growing delay.

  The theory embeds the class: the text functions as functions on strings, the instance
  as a record, every method and handler as a function from the state before to the state
  after, and every answer of the environment (network, microphone, adapter, random
  jitter) as an argument. An exception is a value: a call that may throw yields
  \<open>Returned\<close> or \<open>Thrown\<close>, and an asynchronous call yields \<open>Resolved\<close> or \<open>Rejected\<close>.
\<close>

section \<open>Text normalizer\<close>

text \<open>
  A \<^typ>\<open>char\<close> stands for one UTF-16 code unit below 256, that is for a character of the
  Latin-1 range; \<open>of_char\<close> is its code. Strings with code units from 256 on are outside
  the model.

  \<^verbatim>\<open>normalizeTranscript(text) { return text.toLowerCase().trim().replace(/[.,!?;:]/g, ''); }\<close>
\<close>

definition isUpperCase :: "char \<Rightarrow> bool" where
  \<comment> \<open>the characters \<open>toLowerCase\<close> changes: A to Z, and U+00C0 to U+00DE without the
      multiplication sign U+00D7\<close>
  "isUpperCase c =
     (let n = (of_char c :: nat)
      in (65 \<le> n \<and> n \<le> 90) \<or> (192 \<le> n \<and> n \<le> 222 \<and> n \<noteq> 215))"

definition toLowerChar :: "char \<Rightarrow> char" where
  "toLowerChar c = (if isUpperCase c then char_of ((of_char c :: nat) + 32) else c)"

definition toLowerCase :: "string \<Rightarrow> string" where
  "toLowerCase text = map toLowerChar text"

definition isWhiteSpace :: "char \<Rightarrow> bool" where
  \<comment> \<open>what \<open>trim\<close> strips: TAB, LF, VT, FF, CR, space, and the no-break space U+00A0\<close>
  "isWhiteSpace c = ((of_char c :: nat) \<in> {9, 10, 11, 12, 13, 32, 160})"

definition trim :: "string \<Rightarrow> string" where
  "trim text = rev (dropWhile isWhiteSpace (rev (dropWhile isWhiteSpace text)))"

definition isPunctuation :: "char \<Rightarrow> bool" where
  \<comment> \<open>the character class \<open>[.,!?;:]\<close>\<close>
  "isPunctuation c = (c \<in> set ''.,!?;:'')"

definition stripPunctuation :: "string \<Rightarrow> string" where
  "stripPunctuation text = filter (\<lambda>c. \<not> isPunctuation c) text"

definition normalizeTranscript :: "string \<Rightarrow> string" where
  "normalizeTranscript text = stripPunctuation (trim (toLowerCase text))"

section \<open>Phrase matcher\<close>

text \<open>
  \<^verbatim>\<open>new RegExp(`\\b(${words.join('|')})\\b`, 'i')\<close>

  The pattern is a word boundary, a group holding a disjunction, and a word boundary. The
  model covers the words whose characters are pattern characters or the bar: the
  disjunction then has the alternatives obtained by cutting the joined source at every
  bar, and each alternative is a sequence of literal characters. A word with another
  syntax character (\<open>isSyntaxCharacter\<close>) would be read as a pattern of its own, or make
  the constructor throw; such words are outside the model, and \<open>boundaryRegExp\<close> says what
  the code compiles only for the word lists that satisfy \<open>patternWords\<close>.
\<close>

fun joinWith :: "string \<Rightarrow> string list \<Rightarrow> string" where
  "joinWith sep [] = []"
| "joinWith sep [w] = w"
| "joinWith sep (w # ws) = w @ sep @ joinWith sep ws"

fun splitAlternatives :: "string \<Rightarrow> string list" where
  "splitAlternatives [] = [[]]"
| "splitAlternatives (c # cs) =
     (if c = CHR ''|'' then [] # splitAlternatives cs
      else (case splitAlternatives cs of
              [] \<Rightarrow> [[c]]
            | a # as \<Rightarrow> (c # a) # as))"

definition isSyntaxCharacter :: "char \<Rightarrow> bool" where
  "isSyntaxCharacter c = (c \<in> set ''^$.*+?()[]{}|'' \<or> c = CHR 0x5C)"

definition patternWords :: "string list \<Rightarrow> bool" where
  \<comment> \<open>the word lists the model covers: no syntax character besides the bar\<close>
  "patternWords ws =
     list_all (list_all (\<lambda>c. \<not> isSyntaxCharacter c \<or> c = CHR ''|'')) ws"

definition boundaryRegExp :: "string list \<Rightarrow> string list" where
  \<comment> \<open>for \<open>patternWords ws\<close>: the alternatives of the group between the two boundary
      assertions\<close>
  "boundaryRegExp ws = splitAlternatives (joinWith ''|'' ws)"

definition isWordChar :: "char \<Rightarrow> bool" where
  \<comment> \<open>the word characters of \<open>\\b\<close>: a to z, A to Z, 0 to 9 and the underscore\<close>
  "isWordChar c =
     (let n = (of_char c :: nat)
      in (97 \<le> n \<and> n \<le> 122) \<or> (65 \<le> n \<and> n \<le> 90) \<or> (48 \<le> n \<and> n \<le> 57) \<or> n = 95)"

definition isWordAt :: "string \<Rightarrow> int \<Rightarrow> bool" where
  \<comment> \<open>position \<open>-1\<close> and the position after the last character hold no word character\<close>
  "isWordAt input e =
     (if e = -1 \<or> e = int (length input) then False else isWordChar (input ! nat e))"

definition wordBoundary :: "string \<Rightarrow> nat \<Rightarrow> bool" where
  "wordBoundary input e = (isWordAt input (int e - 1) \<noteq> isWordAt input (int e))"

definition canonicalize :: "char \<Rightarrow> nat" where
  \<comment> \<open>the code unit compared under the \<open>i\<close> flag: the upper-case form when it is a single
      code unit (the micro sign goes to U+039C, y with diaeresis to U+0178, sharp s stays)\<close>
  "canonicalize c =
     (let n = (of_char c :: nat)
      in if (97 \<le> n \<and> n \<le> 122) \<or> (224 \<le> n \<and> n \<le> 254 \<and> n \<noteq> 247) then n - 32
         else if n = 181 then 924
         else if n = 255 then 376
         else n)"

fun matchLiteral :: "string \<Rightarrow> string \<Rightarrow> bool" where
  "matchLiteral [] rest = True"
| "matchLiteral (p # ps) [] = False"
| "matchLiteral (p # ps) (c # cs) = (canonicalize p = canonicalize c \<and> matchLiteral ps cs)"

definition matchAt :: "string list \<Rightarrow> string \<Rightarrow> nat \<Rightarrow> bool" where
  "matchAt alts input i =
     (wordBoundary input i \<and>
      list_ex (\<lambda>alt. matchLiteral alt (drop i input) \<and> wordBoundary input (i + length alt)) alts)"

definition regexTest :: "string list \<Rightarrow> string \<Rightarrow> bool" where
  \<comment> \<open>\<open>RegExp.prototype.test\<close> without the global flag: a match may start at any position\<close>
  "regexTest alts input = list_ex (matchAt alts input) [0..<Suc (length input)]"


section \<open>The controller\<close>

subsection \<open>Data\<close>

datatype STTState = Idle | Listening | Transcribing | Error | Stopped

text \<open>
  The events handed to the sink. A transcript payload carries the transcript, the finality
  flag and the optional confidence; a state payload carries the state and the optional
  machine-readable error code. The timestamp and the human-readable message are not
  modelled. A confidence is a rational: every finite double is one, and the handler only
  compares it. \<open>NaN\<close> is not modelled.
\<close>

datatype STTEvent =
    TranscriptEvent string bool "rat option"
  | StateEvent STTState "string option"

text \<open>
  The pending callbacks of \<open>setTimeout\<close>: the one-second wait inside
  \<open>handleNetworkError\<close>, the retry scheduled by \<open>handleNetworkError\<close>, and the restart
  scheduled by \<open>scheduleRestart\<close>, the last two with their delay in milliseconds.
\<close>

datatype timer = SettleDelay | NetworkRetry rat | ScheduledRestart rat

text \<open>
  The instance, together with the part of the window it uses: the table of live timers
  with the next timer handle, and the number of one-shot \<open>online\<close> listeners registered
  by \<open>handleNetworkError\<close>. \<open>recognition\<close> tells whether the field holds an adapter or
  \<open>null\<close>. \<open>onEventCallback\<close> is \<open>None\<close> when no callback is installed, and otherwise
  holds the events the callback has received so far, oldest first; the callback is taken
  to return normally and not to call back into the instance. The options
  \<open>continuous\<close>, \<open>interimResults\<close> and \<open>language\<close> are only copied to the adapter and are
  left out. \<open>maxRestartAttempts\<close> is a natural number.
\<close>

record stt =
  wakeRegex :: "string list"
  sleepRegex :: "string list"
  onEventCallback :: "STTEvent list option"
  wakeConfidenceThreshold :: rat
  autoRestart :: bool
  maxRestartAttempts :: nat
  recognition :: bool
  currentState :: STTState
  isTranscribing :: bool
  restartAttempts :: nat
  restartTimeout :: "nat option"
  timers :: "(nat \<times> timer) list"
  nextTimerId :: nat
  onlineOnceListeners :: nat

text \<open>
  What the environment answers during one call: \<open>navigator.onLine\<close> at the first read and
  at a later read of the same turn, the jitter \<open>Math.floor(Math.random() * 1000)\<close>, the
  two \<open>getUserMedia\<close> requests, whether a recognition object can be constructed, and what
  the adapter's \<open>start\<close>, \<open>stop\<close> and \<open>abort\<close> do. The test double of the repository calls
  \<open>onstart\<close> inside \<open>start\<close> and \<open>onend\<close> inside \<open>stop\<close>; a browser calls them later.
\<close>

datatype start_behaviour = StartThrows | StartQuiet | StartFiresOnstart

datatype stop_behaviour = StopThrows | StopQuiet | StopFiresOnend

record env =
  onLine :: bool
  onLineLater :: bool
  jitter :: nat
  micGranted :: bool
  streamGranted :: bool
  apiAvailable :: bool
  startBehaviour :: start_behaviour
  stopBehaviour :: stop_behaviour
  abortThrows :: bool

datatype completion = Returned | Thrown

datatype promise = Resolved | Rejected

subsection \<open>Events and timers\<close>

definition emitEvent :: "STTEvent \<Rightarrow> stt \<Rightarrow> stt" where
  "emitEvent e s =
     (case onEventCallback s of
        None \<Rightarrow> s
      | Some received \<Rightarrow> s\<lparr>onEventCallback := Some (received @ [e])\<rparr>)"

definition setState :: "STTState \<Rightarrow> string option \<Rightarrow> stt \<Rightarrow> stt" where
  "setState st err s = emitEvent (StateEvent st err) (s\<lparr>currentState := st\<rparr>)"

definition emitTranscript :: "string \<Rightarrow> bool \<Rightarrow> rat option \<Rightarrow> stt \<Rightarrow> stt" where
  "emitTranscript transcript isFinal confidence s =
     emitEvent (TranscriptEvent transcript isFinal confidence) s"

definition setTimeout :: "timer \<Rightarrow> stt \<Rightarrow> nat \<times> stt" where
  "setTimeout tm s =
     (nextTimerId s,
      s\<lparr>timers := timers s @ [(nextTimerId s, tm)], nextTimerId := Suc (nextTimerId s)\<rparr>)"

definition removeTimer :: "nat \<Rightarrow> stt \<Rightarrow> stt" where
  "removeTimer h s = s\<lparr>timers := filter (\<lambda>entry. fst entry \<noteq> h) (timers s)\<rparr>"

definition clearTimeout :: "nat \<Rightarrow> stt \<Rightarrow> stt" where
  "clearTimeout h s = removeTimer h s"

definition clearRestartTimeout :: "stt \<Rightarrow> stt" where
  "clearRestartTimeout s =
     (case restartTimeout s of
        None \<Rightarrow> s
      | Some h \<Rightarrow> (clearTimeout h s)\<lparr>restartTimeout := None\<rparr>)"

definition backoffDelay :: "nat \<Rightarrow> nat \<Rightarrow> rat" where
  \<comment> \<open>\<open>Math.min(2000 * Math.pow(1.5, attempts - 1), 15000) + jitter\<close>\<close>
  "backoffDelay attempts jit = min (2000 * (3 / 2) ^ (attempts - 1)) 15000 + of_nat jit"

subsection \<open>Wake and sleep detection\<close>

definition detectWakeWord :: "stt \<Rightarrow> string \<Rightarrow> bool" where
  "detectWakeWord s transcript = regexTest (wakeRegex s) (normalizeTranscript transcript)"

definition detectSleepWord :: "stt \<Rightarrow> string \<Rightarrow> bool" where
  "detectSleepWord s transcript = regexTest (sleepRegex s) (normalizeTranscript transcript)"

definition enableTranscriptionMode :: "stt \<Rightarrow> stt" where
  "enableTranscriptionMode s =
     (if \<not> isTranscribing s then setState Transcribing None (s\<lparr>isTranscribing := True\<rparr>)
      else s)"

definition disableTranscriptionMode :: "stt \<Rightarrow> stt" where
  "disableTranscriptionMode s =
     (if isTranscribing s then setState Listening None (s\<lparr>isTranscribing := False\<rparr>)
      else s)"

definition enableTranscriptionModePublic :: "stt \<Rightarrow> stt" where
  "enableTranscriptionModePublic s = enableTranscriptionMode s"

definition disableTranscriptionModePublic :: "stt \<Rightarrow> stt" where
  "disableTranscriptionModePublic s = disableTranscriptionMode s"

text \<open>
  The \<open>onresult\<close> handler. Its argument is \<open>None\<close> when \<open>event.results[event.resultIndex]\<close>
  or its first alternative is missing, and otherwise the transcript, the finality flag and
  the confidence of the first alternative. The test \<open>confidence && \<dots>\<close> is JavaScript
  truthiness: an absent confidence and the number zero both fail it.
\<close>

definition lowConfidence :: "rat option \<Rightarrow> rat \<Rightarrow> bool" where
  \<comment> \<open>\<open>confidence && confidence < this.wakeConfidenceThreshold\<close>\<close>
  "lowConfidence confidence threshold =
     (case confidence of None \<Rightarrow> False | Some c \<Rightarrow> c \<noteq> 0 \<and> c < threshold)"

definition onresult :: "(string \<times> bool \<times> rat option) option \<Rightarrow> stt \<Rightarrow> stt" where
  "onresult result s =
     (case result of
        None \<Rightarrow> s
      | Some (transcript, isFinal, confidence) \<Rightarrow>
          if lowConfidence confidence (wakeConfidenceThreshold s) then s
          else
            let s1 = emitTranscript transcript isFinal confidence s;
                s2 = (if \<not> isTranscribing s1 \<and> detectWakeWord s1 transcript
                      then enableTranscriptionMode s1 else s1)
            in if isTranscribing s2 \<and> detectSleepWord s2 transcript
               then disableTranscriptionMode s2 else s2)"

subsection \<open>Restart scheduling\<close>

definition scheduleRestart :: "nat \<Rightarrow> stt \<Rightarrow> stt" where
  "scheduleRestart jit s =
     (if maxRestartAttempts s \<le> restartAttempts s
      then setState Error (Some ''max-attempts-reached'') s
      else
        let s1 = s\<lparr>restartAttempts := restartAttempts s + 1\<rparr>;
            backoff = backoffDelay (restartAttempts s1) jit;
            s2 = clearRestartTimeout (setState Error None s1)
        in case setTimeout (ScheduledRestart backoff) s2 of
             (h, s3) \<Rightarrow> s3\<lparr>restartTimeout := Some h\<rparr>)"

definition onstart :: "stt \<Rightarrow> stt" where
  "onstart s = setState Listening None (s\<lparr>restartAttempts := 0\<rparr>)"

definition onend :: "nat \<Rightarrow> stt \<Rightarrow> stt" where
  "onend jit s =
     (if currentState s \<noteq> Stopped \<and> autoRestart s then scheduleRestart jit s else s)"

definition initRecognition :: "bool \<Rightarrow> stt \<Rightarrow> completion \<times> stt" where
  \<comment> \<open>the \<open>catch\<close> sets the error state, without a code, and throws again\<close>
  "initRecognition available s =
     (if recognition s then (Returned, s)
      else if \<not> available then (Thrown, setState Error None s)
      else (Returned, s\<lparr>recognition := True\<rparr>))"

definition recognitionStart :: "start_behaviour \<Rightarrow> stt \<Rightarrow> completion \<times> stt" where
  "recognitionStart b s =
     (case b of
        StartThrows \<Rightarrow> (Thrown, s)
      | StartQuiet \<Rightarrow> (Returned, s)
      | StartFiresOnstart \<Rightarrow> (Returned, onstart s))"

definition recognitionStop :: "stop_behaviour \<Rightarrow> nat \<Rightarrow> stt \<Rightarrow> completion \<times> stt" where
  "recognitionStop b jit s =
     (case b of
        StopThrows \<Rightarrow> (Thrown, s)
      | StopQuiet \<Rightarrow> (Returned, s)
      | StopFiresOnend \<Rightarrow> (Returned, onend jit s))"

definition restartFailed :: "nat \<Rightarrow> stt \<Rightarrow> stt" where
  \<comment> \<open>the \<open>catch\<close> of the callback below\<close>
  "restartFailed jit s =
     (if autoRestart s then scheduleRestart jit s
      else setState Error (Some ''restart-failed'') s)"

definition scheduledRestartCallback :: "env \<Rightarrow> stt \<Rightarrow> stt" where
  \<comment> \<open>the callback \<open>scheduleRestart\<close> hands to \<open>setTimeout\<close>\<close>
  "scheduledRestartCallback e s =
     (if currentState s = Stopped then s
      else
        case (if \<not> recognition s then initRecognition (apiAvailable e) s else (Returned, s)) of
          (Thrown, s1) \<Rightarrow> restartFailed (jitter e) s1
        | (Returned, s1) \<Rightarrow>
            if recognition s1
            then (case recognitionStart (startBehaviour e) s1 of
                    (Thrown, s2) \<Rightarrow> restartFailed (jitter e) s2
                  | (Returned, s2) \<Rightarrow> s2)
            else s1)"


subsection \<open>Starting and stopping\<close>

text \<open>
  \<open>startListening\<close> is asynchronous: it runs to its first \<open>await\<close>, continues when
  \<open>checkMicrophoneAccess\<close> settles, and continues again when \<open>getUserMedia\<close> settles. Each
  of the three turns is a function; a turn that ends the call yields how the promise
  settles. \<open>startListening\<close> is the three turns with nothing in between.
\<close>

definition startListening_enter :: "bool \<Rightarrow> stt \<Rightarrow> promise option \<times> stt" where
  "startListening_enter online s =
     (if currentState s = Listening \<or> currentState s = Transcribing then (Some Resolved, s)
      else if \<not> online then (Some Resolved, setState Error (Some ''offline'') s)
      else (None, s))"

definition checkMicrophoneAccess :: "bool \<Rightarrow> stt \<Rightarrow> bool \<times> stt" where
  "checkMicrophoneAccess granted s =
     (if granted then (True, s)
      else (False, setState Error (Some ''microphone-denied'') s))"

definition startListening_afterCheck :: "env \<Rightarrow> stt \<Rightarrow> promise option \<times> stt" where
  "startListening_afterCheck e s =
     (case checkMicrophoneAccess (micGranted e) s of
        (False, s1) \<Rightarrow> (Some Resolved, s1)
      | (True, s1) \<Rightarrow>
          if \<not> recognition s1
          then (case initRecognition (apiAvailable e) s1 of
                  (Thrown, s2) \<Rightarrow> (Some Rejected, s2)
                | (Returned, s2) \<Rightarrow>
                    if \<not> recognition s2 then (Some Rejected, s2) else (None, s2))
          else (None, s1))"

definition startListening_afterStream :: "env \<Rightarrow> stt \<Rightarrow> promise \<times> stt" where
  "startListening_afterStream e s =
     (if \<not> streamGranted e then (Rejected, setState Error (Some ''permission-denied'') s)
      else if recognition s
      then (case recognitionStart (startBehaviour e) s of
              (Thrown, s1) \<Rightarrow> (Rejected, setState Error (Some ''permission-denied'') s1)
            | (Returned, s1) \<Rightarrow> (Resolved, setState Listening None s1))
      else (Resolved, s))"

definition startListening :: "env \<Rightarrow> stt \<Rightarrow> promise \<times> stt" where
  "startListening e s =
     (case startListening_enter (onLine e) s of
        (Some p, s1) \<Rightarrow> (p, s1)
      | (None, s1) \<Rightarrow>
          (case startListening_afterCheck e s1 of
             (Some p, s2) \<Rightarrow> (p, s2)
           | (None, s2) \<Rightarrow> startListening_afterStream e s2))"

definition stopListening :: "env \<Rightarrow> stt \<Rightarrow> completion \<times> stt" where
  \<comment> \<open>what \<open>recognition.stop()\<close> throws is caught and logged\<close>
  "stopListening e s =
     (let s1 = setState Stopped None (clearRestartTimeout s);
          s2 = (if recognition s1
                then (case recognitionStop (stopBehaviour e) (jitter e) s1 of
                        (Thrown, s') \<Rightarrow> s'\<lparr>recognition := False\<rparr>
                      | (Returned, s') \<Rightarrow> s'\<lparr>recognition := False\<rparr>)
                else s1)
      in (Returned, s2\<lparr>isTranscribing := False, restartAttempts := 0\<rparr>))"

subsection \<open>Network errors\<close>

text \<open>
  \<open>handleNetworkError\<close> is asynchronous too: it runs to the one-second wait, which is a
  timer of its own, and continues when that timer fires. \<open>handleNetworkError_enter\<close>
  yields the handle of the wait, or \<open>None\<close> when the call has returned at once.
  \<open>recognition.abort()\<close> may throw; the field is set to \<open>null\<close> either way.
\<close>

definition handleNetworkError_enter :: "stt \<Rightarrow> nat option \<times> stt" where
  "handleNetworkError_enter s =
     (if currentState s = Error then (None, s)
      else case setTimeout SettleDelay (setState Error (Some ''network-connecting'') s) of
             (h, s1) \<Rightarrow> (Some h, s1))"

definition abortRecognition :: "bool \<Rightarrow> stt \<Rightarrow> stt" where
  "abortRecognition throws s =
     (if recognition s
      then (if throws then s\<lparr>recognition := False\<rparr> else s\<lparr>recognition := False\<rparr>)
      else s)"

definition handleNetworkError_resume :: "env \<Rightarrow> stt \<Rightarrow> stt" where
  "handleNetworkError_resume e s =
     (if \<not> onLine e then setState Error (Some ''network-offline'') s
      else
        let s1 = abortRecognition (abortThrows e) s
        in if autoRestart s1 \<and> restartAttempts s1 < maxRestartAttempts s1
           then
             let s2 = s1\<lparr>restartAttempts := restartAttempts s1 + 1\<rparr>;
                 delay = backoffDelay (restartAttempts s2) (jitter e);
                 isOffline = \<not> onLineLater e;
                 s3 = (if isOffline
                       then (setState Error None s2)
                              \<lparr>onlineOnceListeners := onlineOnceListeners s2 + 1\<rparr>
                       else setState Error None s2);
                 s4 = clearRestartTimeout s3
             in if \<not> isOffline
                then (case setTimeout (NetworkRetry delay) s4 of
                        (h, s5) \<Rightarrow> s5\<lparr>restartTimeout := Some h\<rparr>)
                else s4
           else setState Error (Some ''network'') s1)"

definition handleNetworkError :: "env \<Rightarrow> stt \<Rightarrow> stt" where
  \<comment> \<open>the whole call, with nothing else running during the wait\<close>
  "handleNetworkError e s =
     (case handleNetworkError_enter s of
        (None, s1) \<Rightarrow> s1
      | (Some h, s1) \<Rightarrow> handleNetworkError_resume e (removeTimer h s1))"

definition networkRetryCallback :: "env \<Rightarrow> stt \<Rightarrow> stt" where
  \<comment> \<open>the callback \<open>handleNetworkError\<close> hands to \<open>setTimeout\<close>, to its first \<open>await\<close>\<close>
  "networkRetryCallback e s =
     (if currentState s = Stopped then s
      else if \<not> onLine e then snd (handleNetworkError_enter s)
      else snd (startListening_enter (onLineLater e) s))"

definition networkRetryRejected :: "stt \<Rightarrow> stt" where
  \<comment> \<open>the \<open>catch\<close> of that callback, run when the awaited \<open>startListening\<close> rejects\<close>
  "networkRetryRejected s = (if autoRestart s then snd (handleNetworkError_enter s) else s)"

definition onerror :: "string \<Rightarrow> stt \<Rightarrow> stt" where
  \<comment> \<open>\<open>event.error || 'unknown'\<close>: a missing code is the empty string here\<close>
  "onerror code s =
     (let errorType = (if code = [] then ''unknown'' else code)
      in if errorType = ''network'' then snd (handleNetworkError_enter s)
         else if errorType = ''not-allowed'' \<or> errorType = ''permission-denied''
         then setState Error (Some ''permission-denied'') s
         else if errorType = ''service-not-allowed''
         then setState Error (Some ''service-not-allowed'') s
         else snd (handleNetworkError_enter s))"

subsection \<open>Window listeners\<close>

definition onlineHandler :: "bool \<Rightarrow> stt \<Rightarrow> stt" where
  "onlineHandler online s =
     (if autoRestart s \<and> currentState s \<noteq> Stopped
      then snd (startListening_enter online s) else s)"

definition offlineHandler :: "env \<Rightarrow> stt \<Rightarrow> stt" where
  "offlineHandler e s = snd (stopListening e (setState Error (Some ''offline'') s))"

definition handleOnline :: "bool \<Rightarrow> stt \<Rightarrow> stt" where
  \<comment> \<open>the one-shot listener registered by \<open>handleNetworkError\<close>\<close>
  "handleOnline online s =
     (let s1 = s\<lparr>onlineOnceListeners := onlineOnceListeners s - 1\<rparr>
      in if currentState s1 \<noteq> Stopped \<and> autoRestart s1
         then snd (startListening_enter online s1) else s1)"

definition windowOnline :: "bool \<Rightarrow> stt \<Rightarrow> stt" where
  \<comment> \<open>an \<open>online\<close> event: the listeners run in the order of their registration\<close>
  "windowOnline online s =
     (let s1 = onlineHandler online s
      in (handleOnline online ^^ onlineOnceListeners s1) s1)"

subsection \<open>Construction\<close>

record options =
  wakeWords :: "string list option"
  sleepWords :: "string list option"
  onEventOption :: bool
  wakeConfidenceThresholdOption :: "rat option"
  autoRestartOption :: "bool option"
  maxRestartAttemptsOption :: "nat option"

definition checkBrowserSupport :: "bool \<Rightarrow> bool \<Rightarrow> stt \<Rightarrow> stt" where
  "checkBrowserSupport supported fileProtocol s =
     (if \<not> supported then setState Error (Some ''not-supported'') s
      else if fileProtocol then setState Error (Some ''file-protocol'') s
      else s)"

definition newWakeSleepSTT :: "options \<Rightarrow> bool \<Rightarrow> bool \<Rightarrow> stt" where
  "newWakeSleepSTT opts supported fileProtocol =
     checkBrowserSupport supported fileProtocol
       \<lparr>wakeRegex = boundaryRegExp (case wakeWords opts of None \<Rightarrow> [''hi'', ''hello''] | Some ws \<Rightarrow> ws),
        sleepRegex = boundaryRegExp (case sleepWords opts of None \<Rightarrow> [''bye'', ''goodbye''] | Some ws \<Rightarrow> ws),
        onEventCallback = (if onEventOption opts then Some [] else None),
        wakeConfidenceThreshold = (case wakeConfidenceThresholdOption opts of None \<Rightarrow> 0 | Some t \<Rightarrow> t),
        autoRestart = (case autoRestartOption opts of None \<Rightarrow> True | Some b \<Rightarrow> b),
        maxRestartAttempts = (case maxRestartAttemptsOption opts of None \<Rightarrow> 5 | Some n \<Rightarrow> n),
        recognition = False,
        currentState = Idle,
        isTranscribing = False,
        restartAttempts = 0,
        restartTimeout = None,
        timers = [],
        nextTimerId = 0,
        onlineOnceListeners = 0\<rparr>"

definition onEvent :: "stt \<Rightarrow> stt" where
  \<comment> \<open>\<open>onEvent(callback)\<close>: the new callback has received nothing yet\<close>
  "onEvent s = s\<lparr>onEventCallback := Some []\<rparr>"

subsection \<open>Turns of the event loop\<close>

text \<open>
  Everything that can run on an instance, one turn at a time: the public calls, the
  handlers the adapter invokes, the timers, the window events and the continuations of
  the two asynchronous methods. A continuation may be taken at any moment and with any
  answer of the environment, so every interleaving of the real program is a sequence of
  turns. A timer fires only while it is in the table, and leaves it when it fires.
\<close>

datatype input =
    StartListeningCall bool
  | MicCheckSettled env
  | MicStreamSettled env
  | StopListeningCall env
  | EnableTranscriptionCall
  | DisableTranscriptionCall
  | OnEventCall
  | RecognitionResult "(string \<times> bool \<times> rat option) option"
  | RecognitionError string
  | RecognitionEnd nat
  | RecognitionStart
  | TimerFires nat env
  | RetryRejected
  | WindowOnline bool
  | WindowOffline env

definition fireTimer :: "nat \<Rightarrow> env \<Rightarrow> stt \<Rightarrow> stt" where
  "fireTimer h e s =
     (case map_of (timers s) h of
        None \<Rightarrow> s
      | Some SettleDelay \<Rightarrow> handleNetworkError_resume e (removeTimer h s)
      | Some (NetworkRetry d) \<Rightarrow> networkRetryCallback e (removeTimer h s)
      | Some (ScheduledRestart d) \<Rightarrow> scheduledRestartCallback e (removeTimer h s))"

fun step :: "input \<Rightarrow> stt \<Rightarrow> stt" where
  "step (StartListeningCall online) s = snd (startListening_enter online s)"
| "step (MicCheckSettled e) s = snd (startListening_afterCheck e s)"
| "step (MicStreamSettled e) s = snd (startListening_afterStream e s)"
| "step (StopListeningCall e) s = snd (stopListening e s)"
| "step EnableTranscriptionCall s = enableTranscriptionModePublic s"
| "step DisableTranscriptionCall s = disableTranscriptionModePublic s"
| "step OnEventCall s = onEvent s"
| "step (RecognitionResult r) s = onresult r s"
| "step (RecognitionError code) s = onerror code s"
| "step (RecognitionEnd jit) s = onend jit s"
| "step RecognitionStart s = onstart s"
| "step (TimerFires h e) s = fireTimer h e s"
| "step RetryRejected s = networkRetryRejected s"
| "step (WindowOnline online) s = windowOnline online s"
| "step (WindowOffline e) s = offlineHandler e s"

fun run :: "input list \<Rightarrow> stt \<Rightarrow> stt" where
  "run [] s = s"
| "run (i # is) s = run is (step i s)"


section \<open>Notions used in the statements and proofs\<close>

subsection \<open>Character codes\<close>

definition upperCodeRange :: "nat \<Rightarrow> bool" where
  "upperCodeRange n = ((65 \<le> n \<and> n \<le> 90) \<or> (192 \<le> n \<and> n \<le> 222 \<and> n \<noteq> 215))"

definition lowerCodeRange :: "nat \<Rightarrow> bool" where
  "lowerCodeRange n = ((97 \<le> n \<and> n \<le> 122) \<or> (224 \<le> n \<and> n \<le> 254 \<and> n \<noteq> 247))"

definition lowerCode :: "nat \<Rightarrow> nat" where
  "lowerCode n = (if (65 \<le> n \<and> n \<le> 90) \<or> (192 \<le> n \<and> n \<le> 222 \<and> n \<noteq> 215) then n + 32 else n)"

definition canonCode :: "nat \<Rightarrow> nat" where
  "canonCode n =
     (if lowerCodeRange n then n - 32 else if n = 181 then 924 else if n = 255 then 376 else n)"

definition uncanonCode :: "nat \<Rightarrow> nat" where
  "uncanonCode k = (if k = 924 then 181 else if k = 376 then 255 else lowerCode k)"

definition wordCode :: "nat \<Rightarrow> bool" where
  "wordCode n =
     ((97 \<le> n \<and> n \<le> 122) \<or> (65 \<le> n \<and> n \<le> 90) \<or> (48 \<le> n \<and> n \<le> 57) \<or> n = 95)"

subsection \<open>What the specification says of the matcher\<close>

text \<open>
  A phrase the model reads as literal text and that is delimited by word characters: it
  is not empty, has no syntax character, and begins and ends with a word character.
\<close>

definition literalPhrase :: "string \<Rightarrow> bool" where
  "literalPhrase p =
     (p \<noteq> [] \<and> (\<forall>c\<in>set p. \<not> isSyntaxCharacter c) \<and> isWordChar (hd p) \<and> isWordChar (last p))"

text \<open>
  The specification's reading of a match: the phrase occurs in the text, letter case
  aside, as a whole word or a contiguous sequence of words, that is with no word character
  directly before or after the occurrence. This definition follows the specification and
  not the code; the theorem below compares it with \<open>regexTest\<close>.
\<close>

definition occursOnWordBoundary :: "string \<Rightarrow> string \<Rightarrow> bool" where
  "occursOnWordBoundary phrase input =
     (\<exists>before occurrence after.
        input = before @ occurrence @ after \<and>
        toLowerCase occurrence = toLowerCase phrase \<and>
        (before = [] \<or> \<not> isWordChar (last before)) \<and>
        (after = [] \<or> \<not> isWordChar (hd after)))"

subsection \<open>Observations and invariants of an instance\<close>

definition delivered :: "stt \<Rightarrow> STTEvent list" where
  \<comment> \<open>the events the sink has received\<close>
  "delivered s = (case onEventCallback s of None \<Rightarrow> [] | Some received \<Rightarrow> received)"

text \<open>
  The code stores a timer handle in \<open>restartTimeout\<close> at two places: the retry of
  \<open>handleNetworkError\<close> and the restart of \<open>scheduleRestart\<close>. \<open>isRestartTimer\<close> tells these
  two backoff timers from the one-second wait of \<open>handleNetworkError\<close>, whose handle the
  code does not keep. The wait is a pending timer all the same, and its continuation
  schedules a retry: that no backoff timer is live does not mean that no restart is on
  its way.
\<close>

definition isRestartTimer :: "timer \<Rightarrow> bool" where
  "isRestartTimer tm = (case tm of SettleDelay \<Rightarrow> False | _ \<Rightarrow> True)"

definition restartTimers :: "stt \<Rightarrow> (nat \<times> timer) list" where
  \<comment> \<open>the live backoff timers\<close>
  "restartTimers s = filter (\<lambda>entry. isRestartTimer (snd entry)) (timers s)"

definition timerInvariant :: "stt \<Rightarrow> bool" where
  \<comment> \<open>a live backoff timer is the one whose handle \<open>restartTimeout\<close> holds\<close>
  "timerInvariant s = (\<forall>entry\<in>set (restartTimers s). restartTimeout s = Some (fst entry))"

definition attemptsBounded :: "stt \<Rightarrow> bool" where
  "attemptsBounded s = (restartAttempts s \<le> maxRestartAttempts s)"

definition keepsMode :: "stt \<Rightarrow> stt \<Rightarrow> bool" where
  \<comment> \<open>the second state is not a fresh entry into Transcribing\<close>
  "keepsMode s s' =
     (currentState s' = Transcribing \<longrightarrow>
        currentState s = Transcribing \<and> isTranscribing s' = isTranscribing s)"

definition modeConsistent :: "stt \<Rightarrow> bool" where
  "modeConsistent s = (currentState s = Transcribing \<longrightarrow> isTranscribing s)"

subsection \<open>Concrete inputs\<close>

definition defaultOptions :: options where
  \<comment> \<open>no option given, apart from a callback\<close>
  "defaultOptions =
     \<lparr>wakeWords = None, sleepWords = None, onEventOption = True,
      wakeConfidenceThresholdOption = None, autoRestartOption = None,
      maxRestartAttemptsOption = None\<rparr>"

definition onlineEnv :: env where
  "onlineEnv =
     \<lparr>onLine = True, onLineLater = True, jitter = 250, micGranted = True, streamGranted = True,
      apiAvailable = True, startBehaviour = StartQuiet, stopBehaviour = StopFiresOnend,
      abortThrows = False\<rparr>"

definition offlineEnv :: env where
  "offlineEnv = onlineEnv\<lparr>onLine := False, onLineLater := False\<rparr>"

definition listeningInstance :: stt where
  \<comment> \<open>a fresh instance with the default options, started while online\<close>
  "listeningInstance =
     run [StartListeningCall True, MicCheckSettled onlineEnv, MicStreamSettled onlineEnv]
       (newWakeSleepSTT defaultOptions True False)"

definition cappedInstance :: stt where
  \<comment> \<open>one restart allowed: a network error, its retry, and the restarted recognition\<close>
  "cappedInstance =
     run [StartListeningCall True, MicCheckSettled onlineEnv, MicStreamSettled onlineEnv,
          RecognitionError ''network'', TimerFires 0 onlineEnv, TimerFires 1 onlineEnv,
          MicCheckSettled onlineEnv, MicStreamSettled onlineEnv]
       (newWakeSleepSTT (defaultOptions\<lparr>maxRestartAttemptsOption := Some 1\<rparr>) True False)"

definition stoppedDuringWait :: stt where
  \<comment> \<open>a network error starts the wait of \<open>handleNetworkError\<close>, then \<open>stopListening\<close> is
      called\<close>
  "stoppedDuringWait =
     snd (stopListening onlineEnv (step (RecognitionError ''network'') listeningInstance))"


section \<open>Properties of the normalizer and the matcher\<close>

lemma of_char_toLowerChar: "(of_char (toLowerChar c) :: nat) = lowerCode (of_char c)"
  by (simp add: toLowerChar_def isUpperCase_def lowerCode_def Let_def)

lemma not_upper_toLowerChar: "\<not> isUpperCase (toLowerChar c)"
  using of_char_toLowerChar [of c]
  by (auto simp: isUpperCase_def Let_def lowerCode_def split: if_splits)

lemma upper_lower_shift: "upperCodeRange n \<longleftrightarrow> lowerCodeRange (n + 32)"
  unfolding upperCodeRange_def lowerCodeRange_def by arith

lemma upper_not_lower: "upperCodeRange n \<Longrightarrow> \<not> lowerCodeRange n"
  unfolding upperCodeRange_def lowerCodeRange_def by arith

lemma lower_ge: "lowerCodeRange n \<Longrightarrow> 32 \<le> n \<and> upperCodeRange (n - 32) \<and> n \<noteq> 181 \<and> n \<noteq> 255"
  unfolding upperCodeRange_def lowerCodeRange_def by arith

lemma upper_ne: "upperCodeRange n \<Longrightarrow> n \<noteq> 181 \<and> n \<noteq> 255 \<and> n < 256"
  unfolding upperCodeRange_def by arith

lemma lowerCode_alt: "lowerCode n = (if upperCodeRange n then n + 32 else n)"
  by (simp add: lowerCode_def upperCodeRange_def)

lemma canonicalize_code: "canonicalize c = canonCode (of_char c)"
  by (simp add: canonicalize_def canonCode_def lowerCodeRange_def Let_def)

lemma uncanon_canon: "n < 256 \<Longrightarrow> uncanonCode (canonCode n) = lowerCode n"
proof (cases "lowerCodeRange n")
  case True
  then show ?thesis
    using lower_ge [of n] upper_not_lower [of n] upper_ne [of "n - 32"]
    by (auto simp: canonCode_def uncanonCode_def lowerCode_alt)
next
  case False
  assume "n < 256"
  with False show ?thesis
    using upper_ne [of n]
    by (auto simp: canonCode_def uncanonCode_def lowerCode_alt)
qed

lemma canon_lower: "canonCode (lowerCode n) = canonCode n"
proof (cases "upperCodeRange n")
  case True
  then show ?thesis
    using upper_lower_shift [of n] upper_not_lower [of n] upper_ne [of n]
    by (auto simp: canonCode_def lowerCode_alt)
next
  case False
  then show ?thesis by (simp add: lowerCode_alt)
qed

lemma canonCode_eq_iff:
  assumes "n < 256" "m < 256"
  shows "canonCode n = canonCode m \<longleftrightarrow> lowerCode n = lowerCode m"
proof
  assume "canonCode n = canonCode m"
  then have "uncanonCode (canonCode n) = uncanonCode (canonCode m)" by simp
  with assms show "lowerCode n = lowerCode m" by (simp add: uncanon_canon)
next
  assume "lowerCode n = lowerCode m"
  then have "canonCode (lowerCode n) = canonCode (lowerCode m)" by simp
  then show "canonCode n = canonCode m" by (simp add: canon_lower)
qed

lemma canonicalize_lower_iff:
  "canonicalize a = canonicalize b \<longleftrightarrow> toLowerChar a = toLowerChar b"
proof -
  have "toLowerChar a = toLowerChar b \<longleftrightarrow> (of_char (toLowerChar a) :: nat) = of_char (toLowerChar b)"
    by simp
  also have "\<dots> \<longleftrightarrow> lowerCode (of_char a) = lowerCode (of_char b)"
    by (simp only: of_char_toLowerChar)
  also have "\<dots> \<longleftrightarrow> canonicalize a = canonicalize b"
    by (simp add: canonicalize_code canonCode_eq_iff)
  finally show ?thesis by simp
qed

lemma wordCode_lower: "wordCode (lowerCode n) = wordCode n"
  unfolding wordCode_def lowerCode_def by arith

lemma isWordChar_toLowerChar: "isWordChar (toLowerChar c) = isWordChar c"
proof -
  have "isWordChar (toLowerChar c) = wordCode (of_char (toLowerChar c))"
    by (simp add: isWordChar_def wordCode_def Let_def)
  also have "\<dots> = wordCode (of_char c)"
    by (simp only: of_char_toLowerChar wordCode_lower)
  also have "\<dots> = isWordChar c"
    by (simp add: isWordChar_def wordCode_def Let_def)
  finally show ?thesis .
qed

lemma canonicalize_wordChar:
  assumes "canonicalize a = canonicalize b"
  shows "isWordChar a = isWordChar b"
proof -
  from assms have "toLowerChar a = toLowerChar b" by (simp add: canonicalize_lower_iff)
  then have "isWordChar (toLowerChar a) = isWordChar (toLowerChar b)" by simp
  then show ?thesis by (simp only: isWordChar_toLowerChar)
qed

lemma toLowerCase_fixed: "\<forall>c\<in>set text. \<not> isUpperCase c \<Longrightarrow> toLowerCase text = text"
  by (induction "text") (auto simp: toLowerCase_def toLowerChar_def)

lemma set_trim: "set (trim text) \<subseteq> set text"
proof -
  have "set (trim text) = set (dropWhile isWhiteSpace (rev (dropWhile isWhiteSpace text)))"
    by (simp add: trim_def)
  also have "\<dots> \<subseteq> set (rev (dropWhile isWhiteSpace text))"
    by (rule set_dropWhileD [THEN subsetI])
  also have "\<dots> \<subseteq> set text"
    using set_dropWhileD [of _ isWhiteSpace "text"] by auto
  finally show ?thesis .
qed

lemma set_normalizeTranscript:
  "set (normalizeTranscript text) \<subseteq> {c \<in> set (toLowerCase text). \<not> isPunctuation c}"
  using set_trim [of "toLowerCase text"]
  by (auto simp: normalizeTranscript_def stripPunctuation_def)

lemma toLowerCase_normalizeTranscript:
  "toLowerCase (normalizeTranscript text) = normalizeTranscript text"
proof (rule toLowerCase_fixed, rule ballI)
  fix c assume "c \<in> set (normalizeTranscript text)"
  then have "c \<in> set (toLowerCase text)" using set_normalizeTranscript by blast
  then show "\<not> isUpperCase c"
    by (auto simp: toLowerCase_def not_upper_toLowerChar)
qed

lemma stripPunctuation_fixed: "\<forall>c\<in>set text. \<not> isPunctuation c \<Longrightarrow> stripPunctuation text = text"
  by (simp add: stripPunctuation_def)

lemma dropWhile_fixed: "xs = [] \<or> \<not> P (hd xs) \<Longrightarrow> dropWhile P xs = xs"
  by (cases xs) auto

lemma hd_dropWhile_not: "dropWhile P xs = [] \<or> \<not> P (hd (dropWhile P xs))"
  using hd_dropWhile [of P xs] by blast

lemma trim_ends:
  "trim text = [] \<or> (\<not> isWhiteSpace (hd (trim text)) \<and> \<not> isWhiteSpace (last (trim text)))"
proof (cases "trim text = []")
  case True
  then show ?thesis by simp
next
  case False
  define ys where "ys = dropWhile isWhiteSpace text"
  define zs where "zs = dropWhile isWhiteSpace (rev ys)"
  have t: "trim text = rev zs" by (simp add: trim_def ys_def zs_def)
  with False have zne: "zs \<noteq> []" by simp
  then have "\<not> isWhiteSpace (hd zs)" using hd_dropWhile_not [of isWhiteSpace "rev ys"] unfolding zs_def by blast
  then have l: "\<not> isWhiteSpace (last (trim text))" using zne by (simp add: t last_rev)
  define us where "us = takeWhile isWhiteSpace (rev ys)"
  have us: "rev ys = us @ zs" by (simp add: us_def zs_def)
  then have "rev (rev ys) = rev (us @ zs)" by (rule arg_cong)
  then have "ys = rev zs @ rev us" by simp
  then have "hd ys = hd (rev zs)" using zne by simp
  moreover have "ys \<noteq> []" using us zne by auto
  then have "\<not> isWhiteSpace (hd ys)" using hd_dropWhile_not [of isWhiteSpace "text"] unfolding ys_def by blast
  ultimately have "\<not> isWhiteSpace (hd (trim text))" by (simp add: t)
  with l show ?thesis by simp
qed

lemma trim_fixed:
  assumes "text = [] \<or> (\<not> isWhiteSpace (hd text) \<and> \<not> isWhiteSpace (last text))"
  shows "trim text = text"
proof (cases "text = []")
  case True
  then show ?thesis by (simp add: trim_def)
next
  case False
  with assms have h: "\<not> isWhiteSpace (hd text)" and l: "\<not> isWhiteSpace (last text)" by auto
  from h have "dropWhile isWhiteSpace text = text" by (simp add: dropWhile_fixed)
  moreover from l False have "dropWhile isWhiteSpace (rev text) = rev text"
    by (simp add: dropWhile_fixed hd_rev)
  ultimately show ?thesis by (simp add: trim_def)
qed

lemma trim_idem: "trim (trim text) = trim text"
  by (rule trim_fixed) (rule trim_ends)

lemma normalize_twice: "normalizeTranscript (normalizeTranscript text) = trim (normalizeTranscript text)"
proof -
  have "\<forall>c\<in>set (trim (normalizeTranscript text)). \<not> isPunctuation c"
    using set_trim [of "normalizeTranscript text"] set_normalizeTranscript [of "text"] by blast
  then have "stripPunctuation (trim (normalizeTranscript text)) = trim (normalizeTranscript text)"
    by (rule stripPunctuation_fixed)
  then show ?thesis
    by (simp add: normalizeTranscript_def [of "normalizeTranscript text"] toLowerCase_normalizeTranscript)
qed

lemma splitAlternatives_nonempty: "splitAlternatives s \<noteq> []"
  by (induction s) (auto split: list.splits)

lemma splitAlternatives_append:
  "CHR ''|'' \<notin> set w \<Longrightarrow>
   splitAlternatives (w @ rest) = (w @ hd (splitAlternatives rest)) # tl (splitAlternatives rest)"
  using splitAlternatives_nonempty [of rest]
  by (induction w) (auto split: list.splits)

lemma splitAlternatives_single: "CHR ''|'' \<notin> set w \<Longrightarrow> splitAlternatives w = [w]"
  using splitAlternatives_append [of w "[]"] by simp

lemma splitAlternatives_bar:
  "CHR ''|'' \<notin> set w \<Longrightarrow> splitAlternatives (w @ ''|'' @ rest) = w # splitAlternatives rest"
  using splitAlternatives_append [of w "''|'' @ rest"] by simp

lemma boundaryRegExp_literal:
  "ws \<noteq> [] \<Longrightarrow> \<forall>w\<in>set ws. CHR ''|'' \<notin> set w \<Longrightarrow> splitAlternatives (joinWith ''|'' ws) = ws"
proof (induction "''|''" ws rule: joinWith.induct)
  case 1
  then show ?case by simp
next
  case (2 w)
  then show ?case by (simp add: splitAlternatives_single)
next
  case (3 w v vs)
  then show ?case using splitAlternatives_bar [of w "joinWith ''|'' (v # vs)"] by simp
qed

lemma matchLiteral_iff:
  "matchLiteral p xs \<longleftrightarrow>
     length p \<le> length xs \<and> map canonicalize (take (length p) xs) = map canonicalize p"
proof (induction p xs rule: matchLiteral.induct)
  case (3 p ps c cs)
  then show ?case by auto
qed simp_all

lemma map_canonicalize_iff:
  "map canonicalize xs = map canonicalize ys \<longleftrightarrow> toLowerCase xs = toLowerCase ys"
proof (induction xs arbitrary: ys)
  case Nil
  then show ?case by (auto simp: toLowerCase_def)
next
  case (Cons x xs)
  then show ?case by (cases ys) (auto simp: toLowerCase_def canonicalize_lower_iff)
qed

lemma wordBoundary_alt:
  "i \<le> length input \<Longrightarrow>
   wordBoundary input i \<longleftrightarrow>
     ((0 < i \<and> isWordChar (input ! (i - 1))) \<noteq> (i < length input \<and> isWordChar (input ! i)))"
  by (cases i) (auto simp: wordBoundary_def isWordAt_def nat_add_distrib)

lemma regexTest_iff:
  "regexTest alts input \<longleftrightarrow>
     (\<exists>i\<le>length input. wordBoundary input i \<and>
        (\<exists>alt\<in>set alts. matchLiteral alt (drop i input) \<and> wordBoundary input (i + length alt)))"
proof -
  have "set [0..<Suc (length input)] = {i. i \<le> length input}" by auto
  then show ?thesis unfolding regexTest_def matchAt_def list_ex_iff by blast
qed

lemma regexTest_empty_input: "\<not> regexTest alts []"
  by (simp add: regexTest_iff wordBoundary_def isWordAt_def)

lemma toLowerCase_length: "toLowerCase xs = toLowerCase ys \<Longrightarrow> length xs = length ys"
  unfolding toLowerCase_def by (rule map_eq_imp_length_eq)

lemma toLowerCase_word_ends:
  assumes "toLowerCase xs = toLowerCase ys" "ys \<noteq> []"
  shows "xs \<noteq> [] \<and> isWordChar (hd xs) = isWordChar (hd ys) \<and> isWordChar (last xs) = isWordChar (last ys)"
proof -
  from assms(1) have len: "length xs = length ys" by (rule toLowerCase_length)
  with assms(2) have ne: "xs \<noteq> []" by auto
  from assms(1) have m: "map toLowerChar xs = map toLowerChar ys" by (simp add: toLowerCase_def)
  from m have "hd (map toLowerChar xs) = hd (map toLowerChar ys)" by simp
  with ne assms(2) have "toLowerChar (hd xs) = toLowerChar (hd ys)"
    by (simp add: hd_map)
  then have "isWordChar (toLowerChar (hd xs)) = isWordChar (toLowerChar (hd ys))" by simp
  then have h: "isWordChar (hd xs) = isWordChar (hd ys)"
    by (simp only: isWordChar_toLowerChar)
  from m have "last (map toLowerChar xs) = last (map toLowerChar ys)" by simp
  with ne assms(2) have "toLowerChar (last xs) = toLowerChar (last ys)"
    by (simp add: last_map)
  then have "isWordChar (toLowerChar (last xs)) = isWordChar (toLowerChar (last ys))" by simp
  then have l: "isWordChar (last xs) = isWordChar (last ys)"
    by (simp only: isWordChar_toLowerChar)
  from ne h l show ?thesis by simp
qed

lemma boundary_before_word:
  assumes "occurrence \<noteq> []" "isWordChar (hd occurrence)"
  shows "wordBoundary (before @ occurrence @ after) (length before) \<longleftrightarrow>
           (before = [] \<or> \<not> isWordChar (last before))"
proof -
  let ?input = "before @ occurrence @ after"
  have here: "?input ! length before = hd occurrence"
    using assms(1) by (simp add: nth_append hd_conv_nth)
  have inside: "length before < length ?input"
    using assms(1) by simp
  have wb: "wordBoundary ?input (length before) \<longleftrightarrow>
      ((0 < length before \<and> isWordChar (?input ! (length before - 1))) \<noteq>
       (length before < length ?input \<and> isWordChar (?input ! length before)))"
    by (rule wordBoundary_alt) simp
  show ?thesis
  proof (cases "before = []")
    case True
    with wb here inside assms(2) show ?thesis by simp
  next
    case False
    then have "?input ! (length before - 1) = last before"
      by (simp add: nth_append last_conv_nth)
    with wb here inside assms False show ?thesis by simp
  qed
qed

lemma boundary_after_word:
  assumes "occurrence \<noteq> []" "isWordChar (last occurrence)"
  shows "wordBoundary (before @ occurrence @ after) (length before + length occurrence) \<longleftrightarrow>
           (after = [] \<or> \<not> isWordChar (hd after))"
proof -
  let ?input = "before @ occurrence @ after"
  let ?e = "length before + length occurrence"
  from assms(1) have pos: "0 < length occurrence" by simp
  then have idx: "?e - 1 = length before + (length occurrence - 1)" by arith
  have "?input ! (length before + (length occurrence - 1)) = (occurrence @ after) ! (length occurrence - 1)"
    by (rule nth_append_length_plus)
  also have "\<dots> = occurrence ! (length occurrence - 1)"
    using pos by (simp add: nth_append)
  also have "\<dots> = last occurrence"
    using assms(1) by (simp add: last_conv_nth)
  finally have prev: "?input ! (?e - 1) = last occurrence"
    by (simp only: idx)
  have wb: "wordBoundary ?input ?e \<longleftrightarrow>
      ((0 < ?e \<and> isWordChar (?input ! (?e - 1))) \<noteq>
       (?e < length ?input \<and> isWordChar (?input ! ?e)))"
    by (rule wordBoundary_alt) simp
  have epos: "0 < ?e" using pos by simp
  show ?thesis
  proof (cases "after = []")
    case True
    then have "\<not> ?e < length ?input" by simp
    with wb prev epos assms(2) True show ?thesis by simp
  next
    case False
    have "?input ! ?e = ((before @ occurrence) @ after) ! (length (before @ occurrence) + 0)"
      by simp
    also have "\<dots> = after ! 0" by (rule nth_append_length_plus)
    also have "\<dots> = hd after" using False by (simp add: hd_conv_nth)
    finally have nxt: "?input ! ?e = hd after" .
    from False have "?e < length ?input" by simp
    with wb prev epos assms(2) False nxt show ?thesis by simp
  qed
qed

lemma regexTest_literal:
  assumes lit: "\<forall>p\<in>set P. literalPhrase p"
  shows "regexTest P input \<longleftrightarrow> (\<exists>p\<in>set P. occursOnWordBoundary p input)"
proof
  assume "regexTest P input"
  then obtain i p where i: "i \<le> length input" and b1: "wordBoundary input i"
    and p: "p \<in> set P" and m: "matchLiteral p (drop i input)"
    and b2: "wordBoundary input (i + length p)"
    by (auto simp: regexTest_iff)
  define before where "before = take i input"
  define occurrence where "occurrence = take (length p) (drop i input)"
  define after where "after = drop (length p) (drop i input)"
  from m have len: "length p \<le> length (drop i input)"
    and eq: "toLowerCase occurrence = toLowerCase p"
    by (simp_all add: matchLiteral_iff map_canonicalize_iff occurrence_def)
  have "occurrence @ after = drop i input"
    by (simp only: occurrence_def after_def append_take_drop_id)
  moreover have "before @ drop i input = input"
    by (simp only: before_def append_take_drop_id)
  ultimately have split: "input = before @ occurrence @ after"
    by simp
  from i have lb: "length before = i" by (simp add: before_def)
  from len have lo: "length occurrence = length p" by (simp add: occurrence_def)
  from lit p have pl: "p \<noteq> []" "isWordChar (hd p)" "isWordChar (last p)"
    by (auto simp: literalPhrase_def)
  from toLowerCase_word_ends [OF eq pl(1)] pl
  have oc: "occurrence \<noteq> []" "isWordChar (hd occurrence)" "isWordChar (last occurrence)"
    by auto
  from b1 have "before = [] \<or> \<not> isWordChar (last before)"
    using boundary_before_word [OF oc(1,2), of before after] split lb by simp
  moreover from b2 have "after = [] \<or> \<not> isWordChar (hd after)"
    using boundary_after_word [OF oc(1,3), of before after] split lb lo by simp
  ultimately have "occursOnWordBoundary p input"
    unfolding occursOnWordBoundary_def using split eq by blast
  with p show "\<exists>p\<in>set P. occursOnWordBoundary p input" by blast
next
  assume "\<exists>p\<in>set P. occursOnWordBoundary p input"
  then obtain p before occurrence after where p: "p \<in> set P"
    and split: "input = before @ occurrence @ after"
    and eq: "toLowerCase occurrence = toLowerCase p"
    and bb: "before = [] \<or> \<not> isWordChar (last before)"
    and ba: "after = [] \<or> \<not> isWordChar (hd after)"
    by (auto simp: occursOnWordBoundary_def)
  from lit p have pl: "p \<noteq> []" "isWordChar (hd p)" "isWordChar (last p)"
    by (auto simp: literalPhrase_def)
  from toLowerCase_word_ends [OF eq pl(1)] pl
  have oc: "occurrence \<noteq> []" "isWordChar (hd occurrence)" "isWordChar (last occurrence)"
    by auto
  have lo: "length occurrence = length p" using eq by (rule toLowerCase_length)
  have "matchLiteral p (drop (length before) input)"
    using eq lo by (simp add: split matchLiteral_iff map_canonicalize_iff)
  moreover have "wordBoundary input (length before)"
    using boundary_before_word [OF oc(1,2), of before after] bb split by simp
  moreover have "wordBoundary input (length before + length p)"
    using boundary_after_word [OF oc(1,3), of before after] ba split lo by simp
  moreover have "length before \<le> length input" by (simp add: split)
  ultimately show "regexTest P input"
    using p unfolding regexTest_iff by blast
qed

lemma punctuation_code: "isPunctuation d \<Longrightarrow> (of_char d :: nat) < 65"
  by (auto simp: isPunctuation_def)

lemma toLowerChar_punct: "isPunctuation (toLowerChar c) = isPunctuation c"
proof (cases "isUpperCase c")
  case False
  then show ?thesis by (simp add: toLowerChar_def)
next
  case True
  then have up: "65 \<le> (of_char c :: nat)"
    by (auto simp: isUpperCase_def Let_def)
  have "(of_char (toLowerChar c) :: nat) = lowerCode (of_char c)"
    by (rule of_char_toLowerChar)
  with up have "65 \<le> (of_char (toLowerChar c) :: nat)"
    by (simp add: lowerCode_def)
  then have "\<not> isPunctuation (toLowerChar c)"
    using punctuation_code [of "toLowerChar c"] by linarith
  moreover from up have "\<not> isPunctuation c"
    using punctuation_code [of c] by linarith
  ultimately show ?thesis by simp
qed

section \<open>Properties of the controller\<close>

lemma emitEvent_alt:
  "emitEvent e s = s\<lparr>onEventCallback := map_option (\<lambda>received. received @ [e]) (onEventCallback s)\<rparr>"
  by (cases "onEventCallback s") (simp_all add: emitEvent_def)

lemma setState_alt:
  "setState st err s =
     s\<lparr>currentState := st,
       onEventCallback := map_option (\<lambda>received. received @ [StateEvent st err]) (onEventCallback s)\<rparr>"
  by (simp add: setState_def emitEvent_alt)

lemma clearRestartTimeout_alt:
  "clearRestartTimeout s =
     s\<lparr>timers := (case restartTimeout s of None \<Rightarrow> timers s
                    | Some h \<Rightarrow> filter (\<lambda>entry. fst entry \<noteq> h) (timers s)),
       restartTimeout := None\<rparr>"
  by (cases "restartTimeout s") (simp_all add: clearRestartTimeout_def clearTimeout_def removeTimer_def)


lemmas prims = setState_alt emitEvent_alt clearRestartTimeout_alt setTimeout_def removeTimer_def
  clearTimeout_def

lemma scheduleRestart_bounded: "attemptsBounded s \<Longrightarrow> attemptsBounded (scheduleRestart j s)"
  by (simp add: attemptsBounded_def scheduleRestart_def prims Let_def)

lemma onstart_bounded: "attemptsBounded (onstart s)"
  by (simp add: attemptsBounded_def onstart_def prims)

lemma onend_bounded: "attemptsBounded s \<Longrightarrow> attemptsBounded (onend j s)"
  by (simp add: onend_def scheduleRestart_bounded)

lemma initRecognition_bounded:
  "attemptsBounded s \<Longrightarrow> attemptsBounded (snd (initRecognition a s))"
  by (simp add: attemptsBounded_def initRecognition_def prims)

lemma recognitionStart_bounded:
  "attemptsBounded s \<Longrightarrow> attemptsBounded (snd (recognitionStart b s))"
  by (cases b) (simp_all add: recognitionStart_def onstart_bounded)

lemma recognitionStop_bounded:
  "attemptsBounded s \<Longrightarrow> attemptsBounded (snd (recognitionStop b j s))"
  by (cases b) (simp_all add: recognitionStop_def onend_bounded)

lemma restartFailed_bounded: "attemptsBounded s \<Longrightarrow> attemptsBounded (restartFailed j s)"
  by (simp add: restartFailed_def scheduleRestart_bounded) (simp add: attemptsBounded_def prims)

lemma setState_bounded: "attemptsBounded s \<Longrightarrow> attemptsBounded (setState st err s)"
  by (simp add: attemptsBounded_def prims)

lemma removeTimer_bounded: "attemptsBounded s \<Longrightarrow> attemptsBounded (removeTimer h s)"
  by (simp add: attemptsBounded_def prims)

lemma scheduledRestartCallback_bounded:
  assumes "attemptsBounded s"
  shows "attemptsBounded (scheduledRestartCallback e s)"
proof -
  have a: "attemptsBounded (snd (initRecognition (apiAvailable e) s))"
    using assms by (rule initRecognition_bounded)
  show ?thesis
    using assms a
      recognitionStart_bounded [of s "startBehaviour e"]
      recognitionStart_bounded [of "snd (initRecognition (apiAvailable e) s)" "startBehaviour e"]
    by (auto simp: scheduledRestartCallback_def restartFailed_bounded
        split: prod.splits completion.splits)
qed

lemma startListening_enter_bounded:
  "attemptsBounded s \<Longrightarrow> attemptsBounded (snd (startListening_enter b s))"
  by (simp add: startListening_enter_def setState_bounded)

lemma startListening_afterCheck_bounded:
  assumes "attemptsBounded s"
  shows "attemptsBounded (snd (startListening_afterCheck e s))"
proof -
  have "attemptsBounded (setState Error (Some ''microphone-denied'') s)"
    using assms by (rule setState_bounded)
  moreover have "attemptsBounded (snd (initRecognition (apiAvailable e) s))"
    using assms by (rule initRecognition_bounded)
  ultimately show ?thesis
    using assms
    by (auto simp: startListening_afterCheck_def checkMicrophoneAccess_def
        split: prod.splits completion.splits bool.splits if_splits)
qed

lemma startListening_afterStream_bounded:
  assumes "attemptsBounded s"
  shows "attemptsBounded (snd (startListening_afterStream e s))"
  using assms recognitionStart_bounded [OF assms, of "startBehaviour e"]
  by (auto simp: startListening_afterStream_def setState_bounded
      split: prod.splits completion.splits)

lemma stopListening_bounded: "attemptsBounded (snd (stopListening e s))"
  by (auto simp: stopListening_def attemptsBounded_def Let_def split: prod.splits completion.splits)

lemma handleNetworkError_enter_bounded:
  "attemptsBounded s \<Longrightarrow> attemptsBounded (snd (handleNetworkError_enter s))"
  by (simp add: handleNetworkError_enter_def attemptsBounded_def prims)

lemma handleNetworkError_resume_bounded:
  "attemptsBounded s \<Longrightarrow> attemptsBounded (handleNetworkError_resume e s)"
  by (simp add: handleNetworkError_resume_def abortRecognition_def attemptsBounded_def prims Let_def)

lemma enable_bounded: "attemptsBounded s \<Longrightarrow> attemptsBounded (enableTranscriptionMode s)"
  by (simp add: enableTranscriptionMode_def attemptsBounded_def prims)

lemma disable_bounded: "attemptsBounded s \<Longrightarrow> attemptsBounded (disableTranscriptionMode s)"
  by (simp add: disableTranscriptionMode_def attemptsBounded_def prims)

lemma emitTranscript_bounded: "attemptsBounded s \<Longrightarrow> attemptsBounded (emitTranscript t f c s)"
  by (simp add: emitTranscript_def attemptsBounded_def prims)

lemma onresult_bounded: "attemptsBounded s \<Longrightarrow> attemptsBounded (onresult r s)"
  by (auto simp: onresult_def Let_def enable_bounded disable_bounded emitTranscript_bounded
      split: option.splits prod.splits)

lemma onerror_bounded: "attemptsBounded s \<Longrightarrow> attemptsBounded (onerror code s)"
  by (simp add: onerror_def Let_def handleNetworkError_enter_bounded setState_bounded)

lemma networkRetryCallback_bounded:
  "attemptsBounded s \<Longrightarrow> attemptsBounded (networkRetryCallback e s)"
  by (simp add: networkRetryCallback_def handleNetworkError_enter_bounded startListening_enter_bounded)

lemma fireTimer_bounded: "attemptsBounded s \<Longrightarrow> attemptsBounded (fireTimer h e s)"
  by (simp add: fireTimer_def removeTimer_bounded handleNetworkError_resume_bounded
      networkRetryCallback_bounded scheduledRestartCallback_bounded
      split: option.splits timer.splits)

lemma handleOnline_bounded: "attemptsBounded s \<Longrightarrow> attemptsBounded (handleOnline b s)"
proof -
  assume "attemptsBounded s"
  then have "attemptsBounded (s\<lparr>onlineOnceListeners := onlineOnceListeners s - 1\<rparr>)"
    by (simp add: attemptsBounded_def)
  then show ?thesis
    by (simp add: handleOnline_def Let_def startListening_enter_bounded)
qed

lemma handleOnline_funpow_bounded:
  "attemptsBounded s \<Longrightarrow> attemptsBounded ((handleOnline b ^^ n) s)"
  by (induction n) (simp_all add: handleOnline_bounded)

lemma windowOnline_bounded: "attemptsBounded s \<Longrightarrow> attemptsBounded (windowOnline b s)"
  by (simp add: windowOnline_def Let_def onlineHandler_def handleOnline_funpow_bounded
      startListening_enter_bounded)

lemma step_bounded: "attemptsBounded s \<Longrightarrow> attemptsBounded (step i s)"
proof (cases i)
  case (StopListeningCall e)
  then show ?thesis by (simp add: stopListening_bounded)
next
  case (WindowOffline e)
  then show ?thesis by (simp add: offlineHandler_def stopListening_bounded)
next
  case OnEventCall
  assume "attemptsBounded s"
  with OnEventCall show ?thesis by (simp add: onEvent_def attemptsBounded_def)
qed (simp_all add: startListening_enter_bounded startListening_afterCheck_bounded
      startListening_afterStream_bounded enableTranscriptionModePublic_def
      disableTranscriptionModePublic_def enable_bounded disable_bounded onresult_bounded
      onerror_bounded onend_bounded onstart_bounded fireTimer_bounded networkRetryRejected_def
      handleNetworkError_enter_bounded windowOnline_bounded)

lemma run_bounded: "attemptsBounded s \<Longrightarrow> attemptsBounded (run ins s)"
  by (induction ins arbitrary: s) (simp_all add: step_bounded)

lemma new_bounded: "attemptsBounded (newWakeSleepSTT opts a b)"
  by (simp add: newWakeSleepSTT_def checkBrowserSupport_def attemptsBounded_def prims)

lemma timerInvariant_cong:
  "timers t = timers s \<Longrightarrow> restartTimeout t = restartTimeout s \<Longrightarrow>
   timerInvariant t = timerInvariant s"
  by (simp add: timerInvariant_def restartTimers_def)

lemma clearRestartTimeout_restartTimers:
  assumes "timerInvariant s"
  shows "restartTimers (clearRestartTimeout s) = []"
proof (cases "restartTimeout s")
  case None
  have "restartTimers s = []"
  proof (cases "restartTimers s")
    case Nil
    then show ?thesis .
  next
    case (Cons entry rest)
    then have "entry \<in> set (restartTimers s)" by simp
    with assms have "restartTimeout s = Some (fst entry)"
      unfolding timerInvariant_def by (rule bspec)
    with None show ?thesis by simp
  qed
  with None show ?thesis by (simp add: restartTimers_def clearRestartTimeout_alt)
next
  case (Some h)
  have "fst entry = h" if "entry \<in> set (timers s)" "isRestartTimer (snd entry)" for entry
  proof -
    from that have "entry \<in> set (restartTimers s)" by (simp add: restartTimers_def)
    with assms have "restartTimeout s = Some (fst entry)"
      unfolding timerInvariant_def by (rule bspec)
    with Some show ?thesis by simp
  qed
  then have "\<forall>entry\<in>set (filter (\<lambda>entry. fst entry \<noteq> h) (timers s)). \<not> isRestartTimer (snd entry)"
    by auto
  then have "filter (\<lambda>entry. isRestartTimer (snd entry)) (filter (\<lambda>entry. fst entry \<noteq> h) (timers s)) = []"
    by (simp only: filter_False)
  with Some show ?thesis by (simp add: restartTimers_def clearRestartTimeout_alt)
qed

lemma timerInvariant_empty: "restartTimers s = [] \<Longrightarrow> timerInvariant s"
  by (simp add: timerInvariant_def)

lemma setState_timerInv: "timerInvariant (setState st err s) = timerInvariant s"
  by (rule timerInvariant_cong) (simp_all add: prims)

lemma removeTimer_timerInv: "timerInvariant s \<Longrightarrow> timerInvariant (removeTimer h s)"
  by (auto simp: timerInvariant_def restartTimers_def removeTimer_def)

lemma setTimeout_timerInv:
  assumes "restartTimers s = []"
  shows "timerInvariant ((snd (setTimeout tm s))\<lparr>restartTimeout := Some (fst (setTimeout tm s))\<rparr>)"
proof -
  from assms have "filter (\<lambda>entry. isRestartTimer (snd entry)) (timers s) = []"
    by (simp add: restartTimers_def)
  then show ?thesis
    by (simp add: setTimeout_def timerInvariant_def restartTimers_def)
qed

lemma scheduleRestart_timerInv:
  assumes "timerInvariant s"
  shows "timerInvariant (scheduleRestart j s)"
proof (cases "maxRestartAttempts s \<le> restartAttempts s")
  case True
  with assms show ?thesis by (simp add: scheduleRestart_def setState_timerInv)
next
  case False
  let ?s1 = "setState Error None (s\<lparr>restartAttempts := restartAttempts s + 1\<rparr>)"
  have "timerInvariant ?s1 = timerInvariant s"
    by (rule timerInvariant_cong) (simp_all add: prims)
  with assms have "restartTimers (clearRestartTimeout ?s1) = []"
    by (simp add: clearRestartTimeout_restartTimers)
  then have "timerInvariant ((snd (setTimeout (ScheduledRestart (backoffDelay (restartAttempts s + 1) j)) (clearRestartTimeout ?s1)))
      \<lparr>restartTimeout := Some (fst (setTimeout (ScheduledRestart (backoffDelay (restartAttempts s + 1) j)) (clearRestartTimeout ?s1)))\<rparr>)"
    by (rule setTimeout_timerInv)
  with False show ?thesis
    by (simp add: scheduleRestart_def Let_def split_beta)
qed

lemma onstart_timerInv: "timerInvariant (onstart s) = timerInvariant s"
  by (rule timerInvariant_cong) (simp_all add: onstart_def prims)

lemma onend_timerInv: "timerInvariant s \<Longrightarrow> timerInvariant (onend j s)"
  by (simp add: onend_def scheduleRestart_timerInv)

lemma initRecognition_timerInv:
  "timerInvariant (snd (initRecognition a s)) = timerInvariant s"
  by (rule timerInvariant_cong) (simp_all add: initRecognition_def prims)

lemma recognitionStart_timerInv:
  "timerInvariant (snd (recognitionStart b s)) = timerInvariant s"
  by (cases b) (simp_all add: recognitionStart_def onstart_timerInv)

lemma recognitionStop_timerInv:
  "timerInvariant s \<Longrightarrow> timerInvariant (snd (recognitionStop b j s))"
  by (cases b) (simp_all add: recognitionStop_def onend_timerInv)

lemma restartFailed_timerInv: "timerInvariant s \<Longrightarrow> timerInvariant (restartFailed j s)"
  by (simp add: restartFailed_def scheduleRestart_timerInv setState_timerInv)

lemma scheduledRestartCallback_timerInv:
  assumes "timerInvariant s"
  shows "timerInvariant (scheduledRestartCallback e s)"
proof -
  have a: "timerInvariant (snd (initRecognition (apiAvailable e) s))"
    using assms by (simp add: initRecognition_timerInv)
  show ?thesis
    using assms a
      recognitionStart_timerInv [of "startBehaviour e" s]
      recognitionStart_timerInv [of "startBehaviour e" "snd (initRecognition (apiAvailable e) s)"]
    by (auto simp: scheduledRestartCallback_def restartFailed_timerInv
        split: prod.splits completion.splits)
qed

lemma startListening_enter_timerInv:
  "timerInvariant (snd (startListening_enter b s)) = timerInvariant s"
  by (simp add: startListening_enter_def setState_timerInv)

lemma startListening_afterCheck_timerInv:
  "timerInvariant (snd (startListening_afterCheck e s)) = timerInvariant s"
  by (rule timerInvariant_cong)
    (auto simp: startListening_afterCheck_def checkMicrophoneAccess_def initRecognition_def prims
      split: prod.splits completion.splits bool.splits if_splits)

lemma startListening_afterStream_timerInv:
  "timerInvariant (snd (startListening_afterStream e s)) = timerInvariant s"
  using recognitionStart_timerInv [of "startBehaviour e" s]
  by (auto simp: startListening_afterStream_def setState_timerInv
      split: prod.splits completion.splits)

lemma stopListening_restartTimers:
  assumes "timerInvariant s"
  shows "restartTimers (snd (stopListening e s)) = []"
proof -
  let ?s1 = "setState Stopped None (clearRestartTimeout s)"
  have st: "currentState ?s1 = Stopped" by (simp add: prims)
  have "restartTimers ?s1 = restartTimers (clearRestartTimeout s)"
    by (simp add: restartTimers_def prims)
  with assms have e: "restartTimers ?s1 = []"
    by (simp add: clearRestartTimeout_restartTimers)
  have "snd (recognitionStop (stopBehaviour e) (jitter e) ?s1) = ?s1"
    using st by (cases "stopBehaviour e") (simp_all add: recognitionStop_def onend_def)
  then obtain c where "recognitionStop (stopBehaviour e) (jitter e) ?s1 = (c, ?s1)"
    by (cases "recognitionStop (stopBehaviour e) (jitter e) ?s1") simp
  then have "timers (snd (stopListening e s)) = timers ?s1"
    by (cases c) (simp_all add: stopListening_def Let_def)
  with e show ?thesis by (simp add: restartTimers_def)
qed

lemma stopListening_timerInv: "timerInvariant s \<Longrightarrow> timerInvariant (snd (stopListening e s))"
  by (rule timerInvariant_empty) (rule stopListening_restartTimers)

lemma handleNetworkError_enter_timerInv:
  "timerInvariant (snd (handleNetworkError_enter s)) = timerInvariant s"
  by (auto simp: handleNetworkError_enter_def timerInvariant_def restartTimers_def prims
      isRestartTimer_def)

lemma handleNetworkError_resume_timerInv:
  assumes "timerInvariant s"
  shows "timerInvariant (handleNetworkError_resume e s)"
proof (cases "onLine e")
  case False
  with assms show ?thesis by (simp add: handleNetworkError_resume_def setState_timerInv)
next
  case True
  let ?s1 = "abortRecognition (abortThrows e) s"
  have s1: "timerInvariant ?s1 = timerInvariant s"
    by (rule timerInvariant_cong) (simp_all add: abortRecognition_def)
  show ?thesis
  proof (cases "autoRestart ?s1 \<and> restartAttempts ?s1 < maxRestartAttempts ?s1")
    case False
    with True assms s1 show ?thesis
      by (auto simp: handleNetworkError_resume_def Let_def setState_timerInv)
  next
    case retry: True
    let ?s2 = "?s1\<lparr>restartAttempts := restartAttempts ?s1 + 1\<rparr>"
    let ?s3 = "(if \<not> onLineLater e
                then (setState Error None ?s2)\<lparr>onlineOnceListeners := onlineOnceListeners ?s2 + 1\<rparr>
                else setState Error None ?s2)"
    have "timerInvariant ?s3 = timerInvariant ?s1"
      by (rule timerInvariant_cong) (simp_all add: prims)
    with assms s1 have empty: "restartTimers (clearRestartTimeout ?s3) = []"
      by (simp add: clearRestartTimeout_restartTimers)
    let ?tm = "NetworkRetry (backoffDelay (restartAttempts ?s1 + 1) (jitter e))"
    show ?thesis
    proof (cases "onLineLater e")
      case False
      from empty have "timerInvariant (clearRestartTimeout ?s3)" by (rule timerInvariant_empty)
      with True retry False show ?thesis
        by (simp add: handleNetworkError_resume_def Let_def)
    next
      case later: True
      from empty have "timerInvariant ((snd (setTimeout ?tm (clearRestartTimeout ?s3)))
          \<lparr>restartTimeout := Some (fst (setTimeout ?tm (clearRestartTimeout ?s3)))\<rparr>)"
        by (rule setTimeout_timerInv)
      with True retry later show ?thesis
        by (simp add: handleNetworkError_resume_def Let_def split_beta)
    qed
  qed
qed

lemma enable_timerInv: "timerInvariant (enableTranscriptionMode s) = timerInvariant s"
  by (rule timerInvariant_cong) (simp_all add: enableTranscriptionMode_def prims)

lemma disable_timerInv: "timerInvariant (disableTranscriptionMode s) = timerInvariant s"
  by (rule timerInvariant_cong) (simp_all add: disableTranscriptionMode_def prims)

lemma onresult_timerInv: "timerInvariant (onresult r s) = timerInvariant s"
  by (rule timerInvariant_cong)
    (auto simp: onresult_def Let_def enableTranscriptionMode_def disableTranscriptionMode_def
      emitTranscript_def prims split: option.splits prod.splits)

lemma onerror_timerInv: "timerInvariant (onerror code s) = timerInvariant s"
  by (simp add: onerror_def Let_def handleNetworkError_enter_timerInv setState_timerInv)

lemma networkRetryCallback_timerInv:
  "timerInvariant (networkRetryCallback e s) = timerInvariant s"
  by (simp add: networkRetryCallback_def handleNetworkError_enter_timerInv
      startListening_enter_timerInv)

lemma fireTimer_timerInv: "timerInvariant s \<Longrightarrow> timerInvariant (fireTimer h e s)"
  by (simp add: fireTimer_def removeTimer_timerInv handleNetworkError_resume_timerInv
      networkRetryCallback_timerInv scheduledRestartCallback_timerInv
      split: option.splits timer.splits)

lemma handleOnline_timerInv: "timerInvariant (handleOnline b s) = timerInvariant s"
proof -
  have "timerInvariant (s\<lparr>onlineOnceListeners := onlineOnceListeners s - 1\<rparr>) = timerInvariant s"
    by (rule timerInvariant_cong) simp_all
  then show ?thesis
    by (simp add: handleOnline_def Let_def startListening_enter_timerInv)
qed

lemma handleOnline_funpow_timerInv:
  "timerInvariant ((handleOnline b ^^ n) s) = timerInvariant s"
  by (induction n) (simp_all add: handleOnline_timerInv)

lemma windowOnline_timerInv: "timerInvariant (windowOnline b s) = timerInvariant s"
  by (simp add: windowOnline_def Let_def onlineHandler_def handleOnline_funpow_timerInv
      startListening_enter_timerInv)

lemma step_timerInv: "timerInvariant s \<Longrightarrow> timerInvariant (step i s)"
proof (cases i)
  case OnEventCall
  have "timerInvariant (onEvent s) = timerInvariant s"
    by (rule timerInvariant_cong) (simp_all add: onEvent_def)
  moreover assume "timerInvariant s"
  ultimately show ?thesis using OnEventCall by simp
qed (simp_all add: startListening_enter_timerInv startListening_afterCheck_timerInv
      startListening_afterStream_timerInv stopListening_timerInv
      enableTranscriptionModePublic_def disableTranscriptionModePublic_def enable_timerInv
      disable_timerInv onresult_timerInv onerror_timerInv onend_timerInv onstart_timerInv
      fireTimer_timerInv networkRetryRejected_def handleNetworkError_enter_timerInv
      windowOnline_timerInv offlineHandler_def setState_timerInv)

lemma run_timerInv: "timerInvariant s \<Longrightarrow> timerInvariant (run ins s)"
  by (induction ins arbitrary: s) (simp_all add: step_timerInv)

lemma new_timerInv: "timerInvariant (newWakeSleepSTT opts a b)"
  by (simp add: newWakeSleepSTT_def checkBrowserSupport_def timerInvariant_def restartTimers_def
      prims)

lemma keepsMode_refl: "keepsMode s s"
  by (simp add: keepsMode_def)

lemma keepsMode_trans: "keepsMode s t \<Longrightarrow> keepsMode t u \<Longrightarrow> keepsMode s u"
  by (auto simp: keepsMode_def)

lemma keepsMode_setState: "st \<noteq> Transcribing \<Longrightarrow> keepsMode s (setState st err t)"
  by (simp add: keepsMode_def prims)

lemma scheduleRestart_keeps: "keepsMode s (scheduleRestart j s)"
  by (simp add: keepsMode_def scheduleRestart_def prims Let_def)

lemma onstart_keeps: "keepsMode s (onstart s)"
  by (simp add: keepsMode_def onstart_def prims)

lemma onend_keeps: "keepsMode s (onend j s)"
  by (simp add: onend_def scheduleRestart_keeps keepsMode_refl)

lemma initRecognition_keeps: "keepsMode s (snd (initRecognition a s))"
  by (simp add: keepsMode_def initRecognition_def prims)

lemma recognitionStart_keeps: "keepsMode s (snd (recognitionStart b s))"
  by (cases b) (simp_all add: recognitionStart_def onstart_keeps keepsMode_refl)

lemma restartFailed_keeps: "keepsMode s (restartFailed j s)"
  by (simp add: restartFailed_def scheduleRestart_keeps keepsMode_setState)

lemma scheduledRestartCallback_keeps: "keepsMode s (scheduledRestartCallback e s)"
proof -
  let ?i = "snd (initRecognition (apiAvailable e) s)"
  have a: "keepsMode s ?i" by (rule initRecognition_keeps)
  have b: "keepsMode s (restartFailed (jitter e) ?i)"
    using a restartFailed_keeps by (rule keepsMode_trans)
  have c: "keepsMode s (snd (recognitionStart (startBehaviour e) ?i))"
    using a recognitionStart_keeps by (rule keepsMode_trans)
  have d: "keepsMode s (restartFailed (jitter e) (snd (recognitionStart (startBehaviour e) ?i)))"
    using c restartFailed_keeps by (rule keepsMode_trans)
  have c': "keepsMode s (snd (recognitionStart (startBehaviour e) s))"
    by (rule recognitionStart_keeps)
  have d': "keepsMode s (restartFailed (jitter e) (snd (recognitionStart (startBehaviour e) s)))"
    using c' restartFailed_keeps by (rule keepsMode_trans)
  show ?thesis
    using a b c d c' d'
    by (auto simp: scheduledRestartCallback_def keepsMode_refl
        split: prod.splits completion.splits)
qed

lemma startListening_enter_keeps: "keepsMode s (snd (startListening_enter b s))"
  by (simp add: startListening_enter_def keepsMode_setState keepsMode_refl)

lemma startListening_afterCheck_keeps: "keepsMode s (snd (startListening_afterCheck e s))"
  using initRecognition_keeps [of s "apiAvailable e"]
  by (auto simp: startListening_afterCheck_def checkMicrophoneAccess_def keepsMode_setState
      keepsMode_refl split: prod.splits completion.splits bool.splits if_splits)

lemma startListening_afterStream_keeps: "keepsMode s (snd (startListening_afterStream e s))"
  by (auto simp: startListening_afterStream_def keepsMode_setState keepsMode_refl
      split: prod.splits completion.splits)

lemma stopListening_state: "currentState (snd (stopListening e s)) = Stopped"
proof -
  let ?s1 = "setState Stopped None (clearRestartTimeout s)"
  have st: "currentState ?s1 = Stopped" by (simp add: prims)
  have "snd (recognitionStop (stopBehaviour e) (jitter e) ?s1) = ?s1"
    using st by (cases "stopBehaviour e") (simp_all add: recognitionStop_def onend_def)
  then obtain c where "recognitionStop (stopBehaviour e) (jitter e) ?s1 = (c, ?s1)"
    by (cases "recognitionStop (stopBehaviour e) (jitter e) ?s1") simp
  then show ?thesis
    using st by (cases c) (simp_all add: stopListening_def Let_def)
qed

lemma stopListening_keeps: "keepsMode s (snd (stopListening e t))"
  by (simp add: keepsMode_def stopListening_state)

lemma handleNetworkError_enter_keeps: "keepsMode s (snd (handleNetworkError_enter s))"
  by (simp add: handleNetworkError_enter_def keepsMode_def prims)

lemma handleNetworkError_resume_keeps: "keepsMode s (handleNetworkError_resume e s)"
  by (simp add: handleNetworkError_resume_def abortRecognition_def keepsMode_def prims Let_def)

lemma removeTimer_keeps: "keepsMode s (removeTimer h s)"
  by (simp add: keepsMode_def removeTimer_def)

lemma disable_keeps: "keepsMode s (disableTranscriptionMode s)"
  by (simp add: disableTranscriptionMode_def keepsMode_def prims)

lemma onerror_keeps: "keepsMode s (onerror code s)"
  by (simp add: onerror_def Let_def handleNetworkError_enter_keeps keepsMode_setState)

lemma networkRetryCallback_keeps: "keepsMode s (networkRetryCallback e s)"
  by (simp add: networkRetryCallback_def handleNetworkError_enter_keeps
      startListening_enter_keeps keepsMode_refl)

lemma fireTimer_keeps: "keepsMode s (fireTimer h e s)"
proof -
  have "keepsMode s (handleNetworkError_resume e (removeTimer h s))"
    using removeTimer_keeps handleNetworkError_resume_keeps by (rule keepsMode_trans)
  moreover have "keepsMode s (networkRetryCallback e (removeTimer h s))"
    using removeTimer_keeps networkRetryCallback_keeps by (rule keepsMode_trans)
  moreover have "keepsMode s (scheduledRestartCallback e (removeTimer h s))"
    using removeTimer_keeps scheduledRestartCallback_keeps by (rule keepsMode_trans)
  ultimately show ?thesis
    by (simp add: fireTimer_def keepsMode_refl split: option.splits timer.splits)
qed

lemma handleOnline_keeps: "keepsMode s (handleOnline b s)"
proof -
  let ?s1 = "s\<lparr>onlineOnceListeners := onlineOnceListeners s - 1\<rparr>"
  have "keepsMode s ?s1" by (simp add: keepsMode_def)
  moreover have "keepsMode ?s1 (snd (startListening_enter b ?s1))"
    by (rule startListening_enter_keeps)
  ultimately have "keepsMode s (snd (startListening_enter b ?s1))" by (rule keepsMode_trans)
  with \<open>keepsMode s ?s1\<close> show ?thesis
    by (simp add: handleOnline_def Let_def)
qed

lemma handleOnline_funpow_keeps: "keepsMode s ((handleOnline b ^^ n) s)"
proof (induction n)
  case 0
  show ?case by (simp add: keepsMode_refl)
next
  case (Suc n)
  have "keepsMode ((handleOnline b ^^ n) s) (handleOnline b ((handleOnline b ^^ n) s))"
    by (rule handleOnline_keeps)
  with Suc have "keepsMode s (handleOnline b ((handleOnline b ^^ n) s))"
    by (rule keepsMode_trans)
  then show ?case by simp
qed

lemma windowOnline_keeps: "keepsMode s (windowOnline b s)"
proof -
  have "keepsMode s (onlineHandler b s)"
    by (simp add: onlineHandler_def startListening_enter_keeps keepsMode_refl)
  then show ?thesis
    unfolding windowOnline_def Let_def
    using handleOnline_funpow_keeps by (rule keepsMode_trans)
qed

lemma step_keeps:
  assumes "i \<noteq> EnableTranscriptionCall" "\<forall>r. i \<noteq> RecognitionResult r"
  shows "keepsMode s (step i s)"
proof (cases i)
  case OnEventCall
  then show ?thesis by (simp add: onEvent_def keepsMode_def)
next
  case (WindowOffline e)
  then show ?thesis by (simp add: offlineHandler_def stopListening_keeps)
qed (use assms in \<open>simp_all add: startListening_enter_keeps startListening_afterCheck_keeps
      startListening_afterStream_keeps stopListening_keeps disableTranscriptionModePublic_def
      disable_keeps onerror_keeps onend_keeps onstart_keeps fireTimer_keeps
      networkRetryRejected_def handleNetworkError_enter_keeps windowOnline_keeps keepsMode_refl\<close>)


lemma onresult_state:
  assumes "\<not> lowConfidence c (wakeConfidenceThreshold s)"
  shows "currentState (onresult (Some (t, f, c)) s) =
       (if isTranscribing s
        then (if detectSleepWord s t then Listening else currentState s)
        else if detectWakeWord s t
        then (if detectSleepWord s t then Listening else Transcribing)
        else currentState s)
     \<and> isTranscribing (onresult (Some (t, f, c)) s) =
       (if isTranscribing s then \<not> detectSleepWord s t
        else detectWakeWord s t \<and> \<not> detectSleepWord s t)"
  using assms
  by (simp add: onresult_def Let_def emitTranscript_def enableTranscriptionMode_def
      disableTranscriptionMode_def detectWakeWord_def detectSleepWord_def prims)

lemma onresult_discard:
  "lowConfidence c (wakeConfidenceThreshold s) \<Longrightarrow> onresult (Some (t, f, c)) s = s"
  by (simp add: onresult_def)

lemma onresult_enters:
  assumes "currentState (onresult r s) = Transcribing" "currentState s \<noteq> Transcribing"
  shows "\<not> isTranscribing s \<and> (\<exists>t f c. r = Some (t, f, c) \<and> detectWakeWord s t)"
proof (cases r)
  case None
  with assms show ?thesis by (simp add: onresult_def)
next
  case (Some res)
  obtain t f c where res: "res = (t, f, c)" by (cases res) auto
  show ?thesis
  proof (cases "lowConfidence c (wakeConfidenceThreshold s)")
    case True
    with assms Some res show ?thesis by (simp add: onresult_discard)
  next
    case False
    from onresult_state [OF False, of t f] assms Some res show ?thesis
      by (auto split: if_splits)
  qed
qed

lemma onresult_consistent: "modeConsistent s \<Longrightarrow> modeConsistent (onresult r s)"
proof (cases r)
  case None
  assume "modeConsistent s"
  with None show ?thesis by (simp add: onresult_def)
next
  case (Some res)
  assume m: "modeConsistent s"
  obtain t f c where res: "res = (t, f, c)" by (cases res) auto
  show ?thesis
  proof (cases "lowConfidence c (wakeConfidenceThreshold s)")
    case True
    with m Some res show ?thesis by (simp add: onresult_discard)
  next
    case False
    from onresult_state [OF False, of t f] m Some res show ?thesis
      by (auto simp: modeConsistent_def split: if_splits)
  qed
qed

lemma enable_consistent: "modeConsistent s \<Longrightarrow> modeConsistent (enableTranscriptionMode s)"
  by (simp add: modeConsistent_def enableTranscriptionMode_def prims)

lemma step_consistent:
  assumes "modeConsistent s"
  shows "modeConsistent (step i s)"
proof (cases "i = EnableTranscriptionCall \<or> (\<exists>r. i = RecognitionResult r)")
  case True
  with assms show ?thesis
    by (auto simp: enableTranscriptionModePublic_def enable_consistent onresult_consistent)
next
  case False
  then have "keepsMode s (step i s)" by (simp add: step_keeps)
  with assms show ?thesis by (auto simp: keepsMode_def modeConsistent_def)
qed

lemma run_consistent: "modeConsistent s \<Longrightarrow> modeConsistent (run ins s)"
  by (induction ins arbitrary: s) (simp_all add: step_consistent)

lemma new_consistent: "modeConsistent (newWakeSleepSTT opts a b)"
  by (simp add: newWakeSleepSTT_def checkBrowserSupport_def modeConsistent_def prims)

lemma step_enters:
  assumes "currentState (step i s) = Transcribing" "currentState s \<noteq> Transcribing"
  shows "\<not> isTranscribing s \<and>
     (i = EnableTranscriptionCall \<or>
      (\<exists>t f c. i = RecognitionResult (Some (t, f, c)) \<and> detectWakeWord s t))"
proof (cases "i = EnableTranscriptionCall")
  case True
  with assms have "enableTranscriptionMode s \<noteq> s"
    by (auto simp: enableTranscriptionModePublic_def)
  then have "\<not> isTranscribing s" by (auto simp: enableTranscriptionMode_def)
  with True show ?thesis by simp
next
  case notEnable: False
  show ?thesis
  proof (cases "\<exists>r. i = RecognitionResult r")
    case True
    then obtain r where r: "i = RecognitionResult r" by blast
    with assms onresult_enters [of r s] show ?thesis by auto
  next
    case False
    with notEnable have "keepsMode s (step i s)" by (simp add: step_keeps)
    with assms show ?thesis by (simp add: keepsMode_def)
  qed
qed

lemma stopListening_alt:
  "stopListening e s =
     (Returned, (setState Stopped None (clearRestartTimeout s))
                  \<lparr>recognition := False, isTranscribing := False, restartAttempts := 0\<rparr>)"
proof -
  let ?s1 = "setState Stopped None (clearRestartTimeout s)"
  have st: "currentState ?s1 = Stopped" by (simp add: prims)
  have "snd (recognitionStop (stopBehaviour e) (jitter e) ?s1) = ?s1"
    using st by (cases "stopBehaviour e") (simp_all add: recognitionStop_def onend_def)
  then obtain c where c: "recognitionStop (stopBehaviour e) (jitter e) ?s1 = (c, ?s1)"
    by (cases "recognitionStop (stopBehaviour e) (jitter e) ?s1") simp
  show ?thesis
  proof (cases "recognition ?s1")
    case True
    with c show ?thesis by (cases c) (simp_all add: stopListening_def Let_def)
  next
    case False
    then have "?s1\<lparr>recognition := False\<rparr> = ?s1" by simp
    with False show ?thesis by (simp add: stopListening_def Let_def)
  qed
qed

lemma handleNetworkError_offline:
  assumes "currentState s \<noteq> Error" "\<not> onLine e"
  shows "handleNetworkError e s =
     setState Error (Some ''network-offline'')
       (removeTimer (nextTimerId s)
          (snd (setTimeout SettleDelay (setState Error (Some ''network-connecting'') s))))"
  using assms
  by (simp add: handleNetworkError_def handleNetworkError_enter_def handleNetworkError_resume_def
      setTimeout_def prims)

lemma restartTimers_settle:
  "set (restartTimers (removeTimer h (snd (setTimeout SettleDelay s)))) \<subseteq> set (restartTimers s)"
  by (auto simp: restartTimers_def removeTimer_def setTimeout_def isRestartTimer_def)

lemma handleNetworkError_capped:
  assumes "currentState s \<noteq> Error" "onLine e" "maxRestartAttempts s \<le> restartAttempts s"
  shows "handleNetworkError e s =
     setState Error (Some ''network'')
       (abortRecognition (abortThrows e)
         (removeTimer (nextTimerId s)
           (snd (setTimeout SettleDelay (setState Error (Some ''network-connecting'') s)))))"
  using assms
  by (simp add: handleNetworkError_def handleNetworkError_enter_def handleNetworkError_resume_def
      abortRecognition_def setTimeout_def prims Let_def)


text \<open>
  What \<open>stopListening\<close> does establish in every state, whatever the adapter's \<open>stop\<close> does:
  it returns, the Mode is Stopped, the handle is cleared, the counter is 0 and the
  sub-state is false. Of the pending timers it cancels the backoff timer, which in every
  reachable state is the one behind the handle; the wait of \<open>handleNetworkError\<close> stays.
\<close>

lemma stopListening_effect:
  "fst (stopListening e s) = Returned
   \<and> currentState (snd (stopListening e s)) = Stopped
   \<and> restartTimeout (snd (stopListening e s)) = None
   \<and> restartAttempts (snd (stopListening e s)) = 0
   \<and> \<not> isTranscribing (snd (stopListening e s))
   \<and> (timerInvariant s \<longrightarrow> restartTimers (snd (stopListening e s)) = [])
   \<and> timerInvariant (run ins (newWakeSleepSTT opts a b))"
proof -
  have "timerInvariant (run ins (newWakeSleepSTT opts a b))"
    using new_timerInv by (rule run_timerInv)
  moreover have "timerInvariant s \<longrightarrow> restartTimers (snd (stopListening e s)) = []"
    by (simp add: stopListening_restartTimers)
  ultimately show ?thesis
    by (simp add: stopListening_alt prims)
qed

section \<open>The claims\<close>

subsection \<open>C9: the normalizer applied twice\<close>

text \<open>
  C9, as amended. Normalizing a normalized text trims it once more and changes nothing
  else: \<open>normalize(normalize(T)) = trim(normalize(T))\<close> for every \<open>T\<close>. So the normalizer
  is idempotent on every text without the punctuation characters \<open>. , ! ? ; :\<close>, and a
  third application never changes the result of the second. It lower-cases, trims and
  strips the punctuation, in this order, and yields the empty string on the empty string.
\<close>

theorem normalize_twice_is_trim:
  "normalizeTranscript (normalizeTranscript T) = trim (normalizeTranscript T)
   \<and> ((\<forall>c\<in>set T. \<not> isPunctuation c) \<longrightarrow>
        normalizeTranscript (normalizeTranscript T) = normalizeTranscript T)
   \<and> normalizeTranscript (normalizeTranscript (normalizeTranscript T)) =
       normalizeTranscript (normalizeTranscript T)
   \<and> normalizeTranscript [] = []"
proof -
  have twice: "normalizeTranscript (normalizeTranscript T) = trim (normalizeTranscript T)"
    by (rule normalize_twice)
  have plain: "normalizeTranscript (normalizeTranscript T) = normalizeTranscript T"
    if "\<forall>c\<in>set T. \<not> isPunctuation c"
  proof -
    from that have "\<forall>c\<in>set (toLowerCase T). \<not> isPunctuation c"
      by (auto simp: toLowerCase_def toLowerChar_punct)
    then have "\<forall>c\<in>set (trim (toLowerCase T)). \<not> isPunctuation c"
      using set_trim [of "toLowerCase T"] by blast
    then have "normalizeTranscript T = trim (toLowerCase T)"
      by (simp add: normalizeTranscript_def stripPunctuation_fixed)
    with twice show ?thesis by (simp add: trim_idem)
  qed
  have "normalizeTranscript (normalizeTranscript (normalizeTranscript T)) =
      trim (normalizeTranscript (normalizeTranscript T))"
    by (rule normalize_twice)
  then have "normalizeTranscript (normalizeTranscript (normalizeTranscript T)) =
      trim (trim (normalizeTranscript T))"
    by (simp only: twice)
  then have thrice: "normalizeTranscript (normalizeTranscript (normalizeTranscript T)) =
      normalizeTranscript (normalizeTranscript T)"
    by (simp add: trim_idem twice)
  have empty: "normalizeTranscript [] = []"
    by (simp add: normalizeTranscript_def stripPunctuation_def trim_def toLowerCase_def)
  from twice plain thrice empty show ?thesis by blast
qed

text \<open>The theorem at \<open>Hello World\<close>, a text without punctuation.\<close>

theorem normalize_twice_is_trim_witness:
  "list_all (\<lambda>c. \<not> isPunctuation c) ''Hello World''
   \<and> normalizeTranscript (normalizeTranscript ''Hello World'') = normalizeTranscript ''Hello World''
   \<and> normalizeTranscript ''Hello World'' = ''hello world''"
proof -
  have l: "list_all (\<lambda>c. \<not> isPunctuation c) ''Hello World''" by code_simp
  then have h: "\<forall>c\<in>set ''Hello World''. \<not> isPunctuation c"
    by (simp only: list_all_iff)
  have v: "normalizeTranscript ''Hello World'' = ''hello world''" by code_simp
  from normalize_twice_is_trim [of "''Hello World''"] h l v show ?thesis by blast
qed

text \<open>
  C9 as stated fails at the text \<open>. a\<close>: the trimming comes before the removal of the
  full stop, so the first result is \<open> a\<close> with its leading space, and the second is \<open>a\<close>.
\<close>

theorem normalize_not_idempotent:
  "normalizeTranscript ''. a'' = '' a''
   \<and> normalizeTranscript (normalizeTranscript ''. a'') = ''a''
   \<and> normalizeTranscript (normalizeTranscript ''. a'') \<noteq> normalizeTranscript ''. a''"
  by code_simp

subsection \<open>C1: the compiled matcher\<close>

text \<open>
  C1, as amended. For every phrase list \<open>P\<close> that is not empty and whose phrases are
  literal and delimited by word characters (\<open>literalPhrase\<close>), and for every raw text
  \<open>T\<close>, the matcher compiled from \<open>P\<close> accepts \<open>T\<close> exactly when some phrase of \<open>P\<close>
  occurs in \<open>normalize(T)\<close>, letter case aside, with no word character directly before or
  after it. The wake and the sleep detection of an instance constructed with \<open>P\<close> are this
  test. For every phrase list without syntax characters besides the bar, a text whose
  normalization is empty is not accepted.
\<close>

theorem matcher_whole_word_iff:
  assumes "P \<noteq> []" and "\<forall>p\<in>set P. literalPhrase p"
  shows "(regexTest (boundaryRegExp P) (normalizeTranscript T) \<longleftrightarrow>
            (\<exists>p\<in>set P. occursOnWordBoundary p (normalizeTranscript T)))
     \<and> (wakeWords opts = Some P \<longrightarrow>
          detectWakeWord (newWakeSleepSTT opts a b) T =
            regexTest (boundaryRegExp P) (normalizeTranscript T))
     \<and> (sleepWords opts = Some P \<longrightarrow>
          detectSleepWord (newWakeSleepSTT opts a b) T =
            regexTest (boundaryRegExp P) (normalizeTranscript T))
     \<and> (patternWords Q \<and> normalizeTranscript T = [] \<longrightarrow>
          \<not> regexTest (boundaryRegExp Q) (normalizeTranscript T))"
proof -
  from assms(2) have "\<forall>p\<in>set P. CHR ''|'' \<notin> set p"
    by (auto simp: literalPhrase_def isSyntaxCharacter_def)
  with assms(1) have "boundaryRegExp P = P"
    by (simp add: boundaryRegExp_def boundaryRegExp_literal)
  with assms(2) have main: "regexTest (boundaryRegExp P) (normalizeTranscript T) \<longleftrightarrow>
      (\<exists>p\<in>set P. occursOnWordBoundary p (normalizeTranscript T))"
    by (simp add: regexTest_literal)
  have wake: "wakeWords opts = Some P \<longrightarrow>
      detectWakeWord (newWakeSleepSTT opts a b) T =
        regexTest (boundaryRegExp P) (normalizeTranscript T)"
    by (simp add: detectWakeWord_def newWakeSleepSTT_def checkBrowserSupport_def prims)
  have sleep: "sleepWords opts = Some P \<longrightarrow>
      detectSleepWord (newWakeSleepSTT opts a b) T =
        regexTest (boundaryRegExp P) (normalizeTranscript T)"
    by (simp add: detectSleepWord_def newWakeSleepSTT_def checkBrowserSupport_def prims)
  have empty: "patternWords Q \<and> normalizeTranscript T = [] \<longrightarrow>
      \<not> regexTest (boundaryRegExp Q) (normalizeTranscript T)"
    by (simp add: regexTest_empty_input)
  from main wake sleep empty show ?thesis by blast
qed

text \<open>
  The theorem at the phrases \<open>hi\<close> and \<open>hello\<close>, with the text \<open>Oh, hi there!\<close> and with
  a text of blanks and punctuation only.
\<close>

theorem matcher_whole_word_iff_witness:
  "[''hi'', ''hello''] \<noteq> []
   \<and> list_all literalPhrase [''hi'', ''hello'']
   \<and> regexTest (boundaryRegExp [''hi'', ''hello'']) (normalizeTranscript ''Oh, hi there!'')
   \<and> (\<exists>p\<in>set [''hi'', ''hello'']. occursOnWordBoundary p (normalizeTranscript ''Oh, hi there!''))
   \<and> wakeWords (defaultOptions\<lparr>wakeWords := Some [''hi'', ''hello'']\<rparr>) = Some [''hi'', ''hello'']
   \<and> detectWakeWord
        (newWakeSleepSTT (defaultOptions\<lparr>wakeWords := Some [''hi'', ''hello'']\<rparr>) True False)
        ''Oh, hi there!''
   \<and> patternWords [''hi'', ''hello'']
   \<and> normalizeTranscript '' ?! '' = []
   \<and> \<not> regexTest (boundaryRegExp [''hi'', ''hello'']) (normalizeTranscript '' ?! '')"
proof -
  let ?opts = "defaultOptions\<lparr>wakeWords := Some [''hi'', ''hello'']\<rparr>"
  have ne: "[''hi'', ''hello''] \<noteq> []" by simp
  have all: "list_all literalPhrase [''hi'', ''hello'']" by code_simp
  then have lit: "\<forall>p\<in>set [''hi'', ''hello'']. literalPhrase p"
    by (simp only: list_all_iff)
  have m: "regexTest (boundaryRegExp [''hi'', ''hello'']) (normalizeTranscript ''Oh, hi there!'')"
    by code_simp
  have w: "wakeWords ?opts = Some [''hi'', ''hello'']" by simp
  have n: "normalizeTranscript '' ?! '' = []" by code_simp
  have q: "patternWords [''hi'', ''hello'']" by code_simp
  from matcher_whole_word_iff [OF ne lit, of "''Oh, hi there!''" ?opts True False]
  have a: "(\<exists>p\<in>set [''hi'', ''hello'']. occursOnWordBoundary p (normalizeTranscript ''Oh, hi there!''))
      \<and> detectWakeWord (newWakeSleepSTT ?opts True False) ''Oh, hi there!''"
    using m w by blast
  from matcher_whole_word_iff [OF ne lit, of "'' ?! ''" _ _ _ "[''hi'', ''hello'']"] n q
  have b: "\<not> regexTest (boundaryRegExp [''hi'', ''hello'']) (normalizeTranscript '' ?! '')"
    by blast
  from ne all m a w n q b show ?thesis by blast
qed

text \<open>
  C1 as stated fails for the empty phrase list: the empty list is kept by the constructor,
  the joined source is empty, and the pattern is two word boundaries around an empty
  group, which is found at the start of \<open>hello\<close>.
\<close>

theorem empty_phrase_list_matches:
  "boundaryRegExp [] = [[]]
   \<and> detectWakeWord (newWakeSleepSTT (defaultOptions\<lparr>wakeWords := Some []\<rparr>) True False) ''hello''"
  by code_simp

subsection \<open>C2: a confidence of zero\<close>

text \<open>
  C2, at the input where the code departs from it. The threshold is one half and the
  result carries the confidence zero, which is present and strictly below the threshold.
  The handler does not discard the result: it delivers the transcript, matches the wake
  word and enters Transcribing.
\<close>

theorem zero_confidence_not_discarded:
  "wakeConfidenceThreshold
     (newWakeSleepSTT (defaultOptions\<lparr>wakeConfidenceThresholdOption := Some (1 / 2)\<rparr>) True False)
     = 1 / 2
   \<and> delivered
       (onresult (Some (''hello'', True, Some 0))
          (newWakeSleepSTT (defaultOptions\<lparr>wakeConfidenceThresholdOption := Some (1 / 2)\<rparr>)
             True False))
     = [TranscriptEvent ''hello'' True (Some 0), StateEvent Transcribing None]"
  by code_simp

subsection \<open>C3: wake and sleep in one result\<close>




subsection \<open>C4: the cap on restart attempts\<close>

text \<open>
  C4, as amended. In every state an instance can reach, the restart attempt counter is at
  most \<open>maxRestartAttempts\<close>. Once the counter has reached the maximum, \<open>scheduleRestart\<close>
  schedules no timer, leaves the counter alone and settles the Mode into Error with the
  code \<open>max-attempts-reached\<close>. In the same situation \<open>handleNetworkError\<close>, entered
  outside the Error Mode and finding the network available, schedules no restart timer
  either and leaves the counter alone, and settles the Mode into Error with the code
  \<open>network\<close>, announced by an Error event with the code \<open>network-connecting\<close>.
\<close>

theorem restart_attempts_capped:
  "restartAttempts (run ins (newWakeSleepSTT opts a b))
      \<le> maxRestartAttempts (run ins (newWakeSleepSTT opts a b))
   \<and> (maxRestartAttempts s \<le> restartAttempts s \<longrightarrow>
        timers (scheduleRestart j s) = timers s
        \<and> restartTimeout (scheduleRestart j s) = restartTimeout s
        \<and> restartAttempts (scheduleRestart j s) = restartAttempts s
        \<and> currentState (scheduleRestart j s) = Error
        \<and> delivered (scheduleRestart j s) =
            (if onEventCallback s = None then []
             else delivered s @ [StateEvent Error (Some ''max-attempts-reached'')]))
   \<and> (maxRestartAttempts s \<le> restartAttempts s \<longrightarrow> currentState s \<noteq> Error \<longrightarrow> onLine e \<longrightarrow>
        set (restartTimers (handleNetworkError e s)) \<subseteq> set (restartTimers s)
        \<and> restartTimeout (handleNetworkError e s) = restartTimeout s
        \<and> restartAttempts (handleNetworkError e s) = restartAttempts s
        \<and> currentState (handleNetworkError e s) = Error
        \<and> delivered (handleNetworkError e s) =
            (if onEventCallback s = None then []
             else delivered s @ [StateEvent Error (Some ''network-connecting''),
                                 StateEvent Error (Some ''network'')]))"
proof -
  have "attemptsBounded (run ins (newWakeSleepSTT opts a b))"
    using new_bounded by (rule run_bounded)
  then have A: "restartAttempts (run ins (newWakeSleepSTT opts a b))
      \<le> maxRestartAttempts (run ins (newWakeSleepSTT opts a b))"
    by (simp add: attemptsBounded_def)
  have B: "maxRestartAttempts s \<le> restartAttempts s \<longrightarrow>
        timers (scheduleRestart j s) = timers s
        \<and> restartTimeout (scheduleRestart j s) = restartTimeout s
        \<and> restartAttempts (scheduleRestart j s) = restartAttempts s
        \<and> currentState (scheduleRestart j s) = Error
        \<and> delivered (scheduleRestart j s) =
            (if onEventCallback s = None then []
             else delivered s @ [StateEvent Error (Some ''max-attempts-reached'')])"
    by (cases "onEventCallback s") (simp_all add: scheduleRestart_def delivered_def prims)
  have C: "set (restartTimers (handleNetworkError e s)) \<subseteq> set (restartTimers s)
        \<and> restartTimeout (handleNetworkError e s) = restartTimeout s
        \<and> restartAttempts (handleNetworkError e s) = restartAttempts s
        \<and> currentState (handleNetworkError e s) = Error
        \<and> delivered (handleNetworkError e s) =
            (if onEventCallback s = None then []
             else delivered s @ [StateEvent Error (Some ''network-connecting''),
                                 StateEvent Error (Some ''network'')])"
    if cap: "maxRestartAttempts s \<le> restartAttempts s" and ne: "currentState s \<noteq> Error"
      and on: "onLine e"
  proof -
    let ?s0 = "setState Error (Some ''network-connecting'') s"
    have "set (restartTimers (removeTimer (nextTimerId s) (snd (setTimeout SettleDelay ?s0))))
            \<subseteq> set (restartTimers ?s0)"
      by (rule restartTimers_settle)
    moreover have "restartTimers ?s0 = restartTimers s" by (simp add: restartTimers_def prims)
    ultimately have "set (restartTimers (handleNetworkError e s)) \<subseteq> set (restartTimers s)"
      by (simp add: handleNetworkError_capped [OF ne on cap] restartTimers_def prims
          abortRecognition_def)
    then show ?thesis
      by (cases "onEventCallback s")
        (simp_all add: handleNetworkError_capped [OF ne on cap] delivered_def setTimeout_def prims
          abortRecognition_def)
  qed
  from A B C show ?thesis by blast
qed

text \<open>
  The theorem at an instance that allows one restart and has used it: a further
  \<open>scheduleRestart\<close> reports \<open>max-attempts-reached\<close>, and a further network error
  schedules nothing.
\<close>

theorem restart_attempts_capped_witness:
  "maxRestartAttempts cappedInstance \<le> restartAttempts cappedInstance
   \<and> restartAttempts cappedInstance = 1
   \<and> timers (scheduleRestart 250 cappedInstance) = timers cappedInstance
   \<and> currentState (scheduleRestart 250 cappedInstance) = Error
   \<and> delivered (scheduleRestart 250 cappedInstance) =
       delivered cappedInstance @ [StateEvent Error (Some ''max-attempts-reached'')]
   \<and> currentState cappedInstance \<noteq> Error
   \<and> onLine onlineEnv
   \<and> restartAttempts (handleNetworkError onlineEnv cappedInstance) = 1
   \<and> restartTimeout (handleNetworkError onlineEnv cappedInstance) = restartTimeout cappedInstance
   \<and> currentState (handleNetworkError onlineEnv cappedInstance) = Error"
proof -
  have h: "maxRestartAttempts cappedInstance \<le> restartAttempts cappedInstance" by code_simp
  have n: "restartAttempts cappedInstance = 1" by code_simp
  have c: "onEventCallback cappedInstance \<noteq> None" by code_simp
  have m: "currentState cappedInstance \<noteq> Error" by code_simp
  have o: "onLine onlineEnv" by code_simp
  from restart_attempts_capped [of _ _ _ _ cappedInstance 250 onlineEnv] h n c m o
  show ?thesis by simp
qed

text \<open>
  C4 as stated fails for \<open>handleNetworkError\<close>: on the same instance, with the counter at
  the maximum, it settles the Mode into Error with the code \<open>network\<close>, and no event
  carries \<open>max-attempts-reached\<close>.
\<close>

theorem network_error_at_cap_reports_network:
  "restartAttempts cappedInstance = maxRestartAttempts cappedInstance
   \<and> currentState cappedInstance = Listening
   \<and> currentState (handleNetworkError onlineEnv cappedInstance) = Error
   \<and> delivered (handleNetworkError onlineEnv cappedInstance) =
       delivered cappedInstance @
       [StateEvent Error (Some ''network-connecting''), StateEvent Error (Some ''network'')]"
  by code_simp

subsection \<open>C5: stopListening during the wait of a network error\<close>

text \<open>
  C5, at the input where the code departs from it. A listening instance receives the
  error \<open>network\<close>, which starts the one-second wait of \<open>handleNetworkError\<close>, and
  \<open>stopListening\<close> is called during the wait. The call leaves the Mode Stopped, the
  counter 0, the sub-state false and the handle cleared, but the wait is still pending:
  \<open>stopListening\<close> cancels only the timer whose handle the instance holds, and the handle
  of the wait is not kept. The continuation of the wait, unlike the callbacks of the two
  backoff timers, does not look at the Mode. So when the wait is over, the Mode goes from
  Stopped to Error, the counter to 1, and a retry is scheduled; and when the retry fires,
  the recognition is started again and the Mode is Listening.
\<close>

theorem stop_during_wait_restarts:
  "currentState stoppedDuringWait = Stopped
   \<and> restartAttempts stoppedDuringWait = 0
   \<and> restartTimeout stoppedDuringWait = None
   \<and> \<not> isTranscribing stoppedDuringWait
   \<and> timers stoppedDuringWait = [(0, SettleDelay)]
   \<and> currentState (step (TimerFires 0 onlineEnv) stoppedDuringWait) = Error
   \<and> restartAttempts (step (TimerFires 0 onlineEnv) stoppedDuringWait) = 1
   \<and> timers (step (TimerFires 0 onlineEnv) stoppedDuringWait) = [(1, NetworkRetry 2250)]
   \<and> restartTimeout (step (TimerFires 0 onlineEnv) stoppedDuringWait) = Some 1
   \<and> currentState
        (run [TimerFires 0 onlineEnv, TimerFires 1 onlineEnv, MicCheckSettled onlineEnv,
              MicStreamSettled onlineEnv] stoppedDuringWait) = Listening
   \<and> recognition
        (run [TimerFires 0 onlineEnv, TimerFires 1 onlineEnv, MicCheckSettled onlineEnv,
              MicStreamSettled onlineEnv] stoppedDuringWait)"
  by code_simp

subsection \<open>C6: a failure while the network is away\<close>

text \<open>
  C6, as amended. If the environment reports no connectivity when \<open>handleNetworkError\<close>,
  entered outside the Error Mode, resumes after its wait, then it starts no backoff timer,
  registers no listener, leaves the restart attempt counter and the timer handle as they
  were, and settles the Mode into Error with the code \<open>network-offline\<close>, after the event
  with the code \<open>network-connecting\<close>. The restart on the return of the network is left
  to the permanent \<open>online\<close> listener of the instance, which calls \<open>startListening\<close> when
  automatic restart is on; that call passes the Mode and network checks and goes on to
  the microphone check.
\<close>

theorem offline_failure_starts_nothing:
  assumes "currentState s \<noteq> Error" and "\<not> onLine e"
  shows "currentState (handleNetworkError e s) = Error
     \<and> restartAttempts (handleNetworkError e s) = restartAttempts s
     \<and> restartTimeout (handleNetworkError e s) = restartTimeout s
     \<and> set (restartTimers (handleNetworkError e s)) \<subseteq> set (restartTimers s)
     \<and> onlineOnceListeners (handleNetworkError e s) = onlineOnceListeners s
     \<and> delivered (handleNetworkError e s) =
         (if onEventCallback s = None then []
          else delivered s @ [StateEvent Error (Some ''network-connecting''),
                              StateEvent Error (Some ''network-offline'')])
     \<and> (autoRestart s \<longrightarrow>
          onlineHandler True (handleNetworkError e s) =
            snd (startListening_enter True (handleNetworkError e s))
          \<and> fst (startListening_enter True (handleNetworkError e s)) = None)"
proof -
  let ?s0 = "setState Error (Some ''network-connecting'') s"
  have "set (restartTimers (removeTimer (nextTimerId s) (snd (setTimeout SettleDelay ?s0))))
          \<subseteq> set (restartTimers ?s0)"
    by (rule restartTimers_settle)
  moreover have "restartTimers ?s0 = restartTimers s" by (simp add: restartTimers_def prims)
  ultimately have "set (restartTimers (handleNetworkError e s)) \<subseteq> set (restartTimers s)"
    by (simp add: handleNetworkError_offline [OF assms] restartTimers_def prims)
  then show ?thesis
    by (cases "onEventCallback s")
      (simp_all add: handleNetworkError_offline [OF assms] delivered_def setTimeout_def prims
        onlineHandler_def startListening_enter_def)
qed

text \<open>The theorem at a listening instance and an environment without network.\<close>

theorem offline_failure_starts_nothing_witness:
  "currentState listeningInstance \<noteq> Error
   \<and> \<not> onLine offlineEnv
   \<and> autoRestart listeningInstance
   \<and> currentState (handleNetworkError offlineEnv listeningInstance) = Error
   \<and> restartAttempts (handleNetworkError offlineEnv listeningInstance) = 0
   \<and> restartTimeout (handleNetworkError offlineEnv listeningInstance) = None
   \<and> fst (startListening_enter True (handleNetworkError offlineEnv listeningInstance)) = None"
proof -
  have h1: "currentState listeningInstance \<noteq> Error" by code_simp
  have h2: "\<not> onLine offlineEnv" by code_simp
  have h3: "autoRestart listeningInstance" by code_simp
  have n: "restartAttempts listeningInstance = 0" by code_simp
  have t: "restartTimeout listeningInstance = None" by code_simp
  from offline_failure_starts_nothing [OF h1 h2] h1 h2 h3 n t
  show ?thesis by simp
qed

text \<open>
  C6 as stated fails on the same input: while the network is away the call registers no
  one-shot listener, and no timer is live afterwards.
\<close>

theorem offline_failure_registers_no_listener:
  "\<not> onLine offlineEnv
   \<and> onlineOnceListeners (handleNetworkError offlineEnv listeningInstance) = 0
   \<and> timers (handleNetworkError offlineEnv listeningInstance) = []
   \<and> delivered (handleNetworkError offlineEnv listeningInstance) =
       delivered listeningInstance @
       [StateEvent Error (Some ''network-connecting''), StateEvent Error (Some ''network-offline'')]"
  by code_simp

subsection \<open>C7: how startListening fails\<close>

text \<open>
  C7, as amended. A call of \<open>startListening\<close> that rejects leaves the instance in the Error
  Mode and has delivered an Error event last. Called outside Listening and Transcribing:
  when the environment is offline, it sets the Error Mode with the code \<open>offline\<close> and
  resolves; when the microphone check is denied, it sets the Error Mode with the code
  \<open>microphone-denied\<close> and resolves; and otherwise it rejects, in the Error Mode, exactly
  when the adapter cannot be constructed, the microphone stream is refused or the
  adapter's \<open>start\<close> throws, and else resolves in the Listening Mode.
\<close>

theorem startListening_failure_modes:
  "(fst (startListening e s) = Rejected \<longrightarrow>
      currentState (snd (startListening e s)) = Error
      \<and> (onEventCallback s \<noteq> None \<longrightarrow>
           (\<exists>code. last (delivered (snd (startListening e s))) = StateEvent Error code)))
   \<and> (currentState s \<noteq> Listening \<and> currentState s \<noteq> Transcribing \<longrightarrow>
        (\<not> onLine e \<longrightarrow>
           startListening e s = (Resolved, setState Error (Some ''offline'') s))
      \<and> (onLine e \<and> \<not> micGranted e \<longrightarrow>
           startListening e s = (Resolved, setState Error (Some ''microphone-denied'') s))
      \<and> (onLine e \<and> micGranted e \<longrightarrow>
           (if (\<not> recognition s \<and> \<not> apiAvailable e) \<or> \<not> streamGranted e
               \<or> startBehaviour e = StartThrows
            then fst (startListening e s) = Rejected
                 \<and> currentState (snd (startListening e s)) = Error
            else fst (startListening e s) = Resolved
                 \<and> currentState (snd (startListening e s)) = Listening)))"
  by (cases "startBehaviour e"; cases "onEventCallback s")
    (auto simp: startListening_def startListening_enter_def startListening_afterCheck_def
      startListening_afterStream_def checkMicrophoneAccess_def initRecognition_def
      recognitionStart_def onstart_def delivered_def prims
      split: prod.splits completion.splits option.splits if_splits)

text \<open>
  The theorem at a fresh instance whose adapter throws from \<open>start\<close>: the call rejects in
  the Error Mode.
\<close>

theorem startListening_failure_modes_witness:
  "currentState (newWakeSleepSTT defaultOptions True False) \<noteq> Listening
   \<and> currentState (newWakeSleepSTT defaultOptions True False) \<noteq> Transcribing
   \<and> onLine (onlineEnv\<lparr>startBehaviour := StartThrows\<rparr>)
   \<and> micGranted (onlineEnv\<lparr>startBehaviour := StartThrows\<rparr>)
   \<and> fst (startListening (onlineEnv\<lparr>startBehaviour := StartThrows\<rparr>)
            (newWakeSleepSTT defaultOptions True False)) = Rejected
   \<and> currentState (snd (startListening (onlineEnv\<lparr>startBehaviour := StartThrows\<rparr>)
            (newWakeSleepSTT defaultOptions True False))) = Error"
proof -
  let ?e = "onlineEnv\<lparr>startBehaviour := StartThrows\<rparr>"
  let ?s = "newWakeSleepSTT defaultOptions True False"
  have h1: "currentState ?s \<noteq> Listening" by code_simp
  have h2: "currentState ?s \<noteq> Transcribing" by code_simp
  have h3: "onLine ?e" by code_simp
  have h4: "micGranted ?e" by code_simp
  have h5: "startBehaviour ?e = StartThrows" by code_simp
  from startListening_failure_modes [of ?e ?s] h1 h2 h3 h4 h5
  show ?thesis by simp
qed

text \<open>
  C7 as stated fails when the environment is offline at the call: the instance goes to
  the Error Mode with the code \<open>offline\<close>, and the promise resolves.
\<close>

theorem startListening_offline_resolves:
  "\<not> onLine offlineEnv
   \<and> fst (startListening offlineEnv (newWakeSleepSTT defaultOptions True False)) = Resolved
   \<and> currentState (snd (startListening offlineEnv (newWakeSleepSTT defaultOptions True False)))
       = Error
   \<and> delivered (snd (startListening offlineEnv (newWakeSleepSTT defaultOptions True False)))
       = [StateEvent Error (Some ''offline'')]"
  by code_simp

subsection \<open>C8: entering the Transcribing Mode\<close>

text \<open>
  C8, as amended. The Transcribing Mode is entered only through
  \<open>enableTranscriptionMode\<close>, and only while the transcription sub-state is false: of all
  the turns an instance can take, only the public call \<open>enableTranscriptionModePublic\<close>
  and a recognition result that matches a wake phrase lead from another Mode into
  Transcribing, and both require that the instance is not transcribing yet. The Mode
  before is not examined, so the entry can be made from any Mode. While the sub-state is
  true, and so in every reachable state whose Mode is Transcribing, a further request is
  no transition and delivers no event.
\<close>

theorem transcribing_entered_by_enable_only:
  "(currentState (step i s) = Transcribing \<and> currentState s \<noteq> Transcribing \<longrightarrow>
      \<not> isTranscribing s
      \<and> (i = EnableTranscriptionCall
          \<or> (\<exists>t f c. i = RecognitionResult (Some (t, f, c)) \<and> detectWakeWord s t)))
   \<and> (\<not> isTranscribing s \<longrightarrow>
        currentState (enableTranscriptionModePublic s) = Transcribing
        \<and> isTranscribing (enableTranscriptionModePublic s))
   \<and> (isTranscribing s \<longrightarrow> enableTranscriptionModePublic s = s)
   \<and> (currentState (run ins (newWakeSleepSTT opts a b)) = Transcribing \<longrightarrow>
        isTranscribing (run ins (newWakeSleepSTT opts a b)))"
proof -
  have "modeConsistent (run ins (newWakeSleepSTT opts a b))"
    using new_consistent by (rule run_consistent)
  then have inv: "currentState (run ins (newWakeSleepSTT opts a b)) = Transcribing \<longrightarrow>
      isTranscribing (run ins (newWakeSleepSTT opts a b))"
    by (simp add: modeConsistent_def)
  have enter: "currentState (step i s) = Transcribing \<and> currentState s \<noteq> Transcribing \<longrightarrow>
      \<not> isTranscribing s
      \<and> (i = EnableTranscriptionCall
          \<or> (\<exists>t f c. i = RecognitionResult (Some (t, f, c)) \<and> detectWakeWord s t))"
    using step_enters [of i s] by blast
  have en: "\<not> isTranscribing s \<longrightarrow>
      currentState (enableTranscriptionModePublic s) = Transcribing
      \<and> isTranscribing (enableTranscriptionModePublic s)"
    by (simp add: enableTranscriptionModePublic_def enableTranscriptionMode_def prims)
  have dup: "isTranscribing s \<longrightarrow> enableTranscriptionModePublic s = s"
    by (simp add: enableTranscriptionModePublic_def enableTranscriptionMode_def)
  from enter en dup inv show ?thesis by blast
qed

text \<open>
  The theorem at a listening instance and the result \<open>hello world\<close>: the turn enters
  Transcribing, and a second enabling request changes nothing.
\<close>

theorem transcribing_entered_by_enable_only_witness:
  "currentState (step (RecognitionResult (Some (''hello world'', True, None))) listeningInstance)
     = Transcribing
   \<and> currentState listeningInstance \<noteq> Transcribing
   \<and> \<not> isTranscribing listeningInstance
   \<and> detectWakeWord listeningInstance ''hello world''
   \<and> isTranscribing (step (RecognitionResult (Some (''hello world'', True, None))) listeningInstance)
   \<and> enableTranscriptionModePublic
        (step (RecognitionResult (Some (''hello world'', True, None))) listeningInstance)
      = step (RecognitionResult (Some (''hello world'', True, None))) listeningInstance
   \<and> currentState (enableTranscriptionModePublic listeningInstance) = Transcribing"
proof -
  let ?i = "RecognitionResult (Some (''hello world'', True, None))"
  have h1: "currentState (step ?i listeningInstance) = Transcribing" by code_simp
  have h2: "currentState listeningInstance \<noteq> Transcribing" by code_simp
  have h3: "isTranscribing (step ?i listeningInstance)" by code_simp
  from transcribing_entered_by_enable_only [of ?i listeningInstance] h1 h2
  have a: "\<not> isTranscribing listeningInstance \<and> detectWakeWord listeningInstance ''hello world''"
    by auto
  from transcribing_entered_by_enable_only [of _ "step ?i listeningInstance"] h3
  have b: "enableTranscriptionModePublic (step ?i listeningInstance) = step ?i listeningInstance"
    by blast
  from transcribing_entered_by_enable_only [of _ listeningInstance] a
  have c: "currentState (enableTranscriptionModePublic listeningInstance) = Transcribing"
    by blast
  from h1 h2 h3 a b c show ?thesis by blast
qed

text \<open>
  C8 as stated fails at a fresh instance: its Mode is Idle, no wake phrase has been
  heard, and the public call enters Transcribing directly.
\<close>

theorem transcribing_entered_from_idle:
  "currentState (newWakeSleepSTT defaultOptions True False) = Idle
   \<and> currentState (step EnableTranscriptionCall (newWakeSleepSTT defaultOptions True False))
       = Transcribing
   \<and> delivered (step EnableTranscriptionCall (newWakeSleepSTT defaultOptions True False))
       = [StateEvent Transcribing None]"
  by code_simp

subsection \<open>C10: network errors in the Error Mode\<close>

text \<open>
  C10. If the Mode is already Error when \<open>handleNetworkError\<close> is called, the call returns
  at once and the instance is unchanged: no event, no wait, and the same Mode, counter and
  timer handle. So the \<open>onerror\<close> handler changes nothing in the Error Mode for the code
  \<open>network\<close> and for every code it does not know.
\<close>

theorem handleNetworkError_in_error_is_noop:
  assumes "currentState s = Error"
  shows "handleNetworkError_enter s = (None, s)
     \<and> handleNetworkError e s = s
     \<and> (code \<notin> {''not-allowed'', ''permission-denied'', ''service-not-allowed''} \<longrightarrow>
          onerror code s = s)"
  using assms
  by (simp add: handleNetworkError_def handleNetworkError_enter_def onerror_def Let_def)

text \<open>
  The theorem at an instance that a first network error has left in the Error Mode, with
  its retry pending.
\<close>

theorem handleNetworkError_in_error_is_noop_witness:
  "currentState (handleNetworkError onlineEnv listeningInstance) = Error
   \<and> restartAttempts (handleNetworkError onlineEnv listeningInstance) = 1
   \<and> handleNetworkError onlineEnv (handleNetworkError onlineEnv listeningInstance)
       = handleNetworkError onlineEnv listeningInstance
   \<and> onerror ''network'' (handleNetworkError onlineEnv listeningInstance)
       = handleNetworkError onlineEnv listeningInstance"
proof -
  let ?s = "handleNetworkError onlineEnv listeningInstance"
  have h: "currentState ?s = Error" by code_simp
  have n: "restartAttempts ?s = 1" by code_simp
  have c: "''network'' \<notin> {''not-allowed'', ''permission-denied'', ''service-not-allowed''}"
    by simp
  from handleNetworkError_in_error_is_noop [OF h, of onlineEnv "''network''"] h n c
  show ?thesis by simp
qed


end
